theory Spec2Isabelle
  imports Main "HOL-Library.AList" "HOL-Library.Sublist"
begin

section \<open>JavaScript values\<close>

text \<open>
  The helpers of \<^verbatim>\<open>src/helpers/utils.js\<close> are untyped: every argument is an arbitrary
  JavaScript value and every property read, method call and regular-expression
  construction may throw. The values are modelled as data: \<^verbatim>\<open>undefined\<close>,
  \<^verbatim>\<open>null\<close>, booleans, non-negative integer numbers, strings (sequences of code units
  below 256), dense arrays, and plain objects (objects whose prototype is
  \<^verbatim>\<open>Object.prototype\<close>) with their own data properties.

  A property that a plain object does not own is looked up in \<^verbatim>\<open>Object.prototype\<close>,
  so a read can return a built-in object. The built-in objects that reads by string
  keys can reach from a plain object are values of the model too: the constructors
  \<^verbatim>\<open>Object\<close> and \<^verbatim>\<open>Function\<close>, the objects \<^verbatim>\<open>Object.prototype\<close> and
  \<^verbatim>\<open>Function.prototype\<close>, and the methods of the two prototypes, named by their
  property name.
\<close>

datatype builtin =
    ObjectCtor
  | FunctionCtor
  | ObjectProto
  | FunctionProto
  | ObjectMethod string
  | FunctionMethod string

datatype jsval =
    JUndefined
  | JNull
  | JBool bool
  | JNum nat
  | JStr string
  | JArr "jsval list"
  | JObj "(string \<times> jsval) list"
  | JBuiltin builtin

text \<open>
  What a call can throw. \<open>Unmodelled\<close> is not a JavaScript exception: it marks a
  point where the model says nothing about the program: a regular-expression source
  that uses syntax beyond the fragment parsed below, a member of a built-in object that
  is not among the values above, the call of a built-in function, the source text of a
  function, the decimal form of a number from \<^verbatim>\<open>1e21\<close> on.
\<close>

datatype error = TypeError | SyntaxError | Unmodelled

definition bindE :: "error + 'a \<Rightarrow> ('a \<Rightarrow> error + 'b) \<Rightarrow> error + 'b" where
  "bindE x f = (case x of Inl e \<Rightarrow> Inl e | Inr v \<Rightarrow> f v)"

fun isFunction :: "builtin \<Rightarrow> bool" where
  "isFunction ObjectProto = False"
| "isFunction b = True"

fun truthy :: "jsval \<Rightarrow> bool" where
  "truthy JUndefined = False"
| "truthy JNull = False"
| "truthy (JBool b) = b"
| "truthy (JNum n) = (n \<noteq> 0)"
| "truthy (JStr s) = (s \<noteq> [])"
| "truthy (JArr xs) = True"
| "truthy (JObj kvs) = True"
| "truthy (JBuiltin b) = True"

fun typeof :: "jsval \<Rightarrow> string" where
  "typeof JUndefined = ''undefined''"
| "typeof JNull = ''object''"
| "typeof (JBool b) = ''boolean''"
| "typeof (JNum n) = ''number''"
| "typeof (JStr s) = ''string''"
| "typeof (JArr xs) = ''object''"
| "typeof (JObj kvs) = ''object''"
| "typeof (JBuiltin b) = (if isFunction b then ''function'' else ''object'')"

definition digit :: "nat \<Rightarrow> char" where
  "digit d = ''0123456789'' ! d"

fun showNat :: "nat \<Rightarrow> string" where
  "showNat n = (if n < 10 then [digit n] else showNat (n div 10) @ [digit (n mod 10)])"

declare showNat.simps [simp del]

fun intercalate :: "string \<Rightarrow> string list \<Rightarrow> string" where
  "intercalate sep [] = []"
| "intercalate sep [x] = x"
| "intercalate sep (x # y # ys) = x @ sep @ intercalate sep (y # ys)"

fun sequenceE :: "(error + 'a) list \<Rightarrow> error + 'a list" where
  "sequenceE [] = Inr []"
| "sequenceE (x # xs) =
     (case x of Inl e \<Rightarrow> Inl e
      | Inr v \<Rightarrow> (case sequenceE xs of Inl e \<Rightarrow> Inl e | Inr vs \<Rightarrow> Inr (v # vs)))"

text \<open>
  \<^verbatim>\<open>ToString\<close>, as a template literal, a property key, \<^verbatim>\<open>Array.prototype.join\<close>
  and the concatenation with a string apply it. A number prints in decimal below
  \<^verbatim>\<open>1e21\<close>, that is with at most 21 digits. An array is the join of its elements
  with a comma. A plain object that owns neither \<^verbatim>\<open>toString\<close> nor \<^verbatim>\<open>valueOf\<close> is \<^verbatim>\<open>[object Object]\<close>, by the
  inherited methods; an own \<^verbatim>\<open>toString\<close> or \<^verbatim>\<open>valueOf\<close> that is a function would
  be called, which is not modelled; with an own \<^verbatim>\<open>toString\<close> that is not a function
  the conversion tries \<^verbatim>\<open>valueOf\<close>, whose inherited method returns the object itself,
  and throws; with only an own \<^verbatim>\<open>valueOf\<close> that is not a function the inherited
  \<^verbatim>\<open>toString\<close> answers.
\<close>

definition callable :: "jsval \<Rightarrow> bool" where
  "callable v = (typeof v = ''function'')"

definition objectToString :: "(string \<times> jsval) list \<Rightarrow> error + string" where
  "objectToString kvs =
     (case map_of kvs ''valueOf'' of
        Some f \<Rightarrow>
          (if callable f then Inl Unmodelled
           else case map_of kvs ''toString'' of
                  Some g \<Rightarrow> (if callable g then Inl Unmodelled else Inl TypeError)
                | None \<Rightarrow> Inr ''[object Object]'')
      | None \<Rightarrow>
          (case map_of kvs ''toString'' of
             Some g \<Rightarrow> (if callable g then Inl Unmodelled else Inl TypeError)
           | None \<Rightarrow> Inr ''[object Object]''))"

fun toStringJS :: "jsval \<Rightarrow> error + string" where
  "toStringJS JUndefined = Inr ''undefined''"
| "toStringJS JNull = Inr ''null''"
| "toStringJS (JBool b) = Inr (if b then ''true'' else ''false'')"
| "toStringJS (JNum n) = (if length (showNat n) \<le> 21 then Inr (showNat n) else Inl Unmodelled)"
| "toStringJS (JStr s) = Inr s"
| "toStringJS (JArr xs) =
     (case sequenceE (map (\<lambda>x. if x = JUndefined \<or> x = JNull then Inr [] else toStringJS x) xs) of
        Inl e \<Rightarrow> Inl e
      | Inr ss \<Rightarrow> Inr (intercalate '','' ss))"
| "toStringJS (JObj kvs) = objectToString kvs"
| "toStringJS (JBuiltin b) = (if isFunction b then Inl Unmodelled else Inr ''[object Object]'')"

text \<open>
  The members of the built-in objects. \<^verbatim>\<open>Object.prototype\<close> has the property
  \<^verbatim>\<open>constructor\<close>, the accessor \<^verbatim>\<open>__proto__\<close> (whose getter returns the prototype
  of the object it is read on) and the methods listed with their \<^verbatim>\<open>length\<close>;
  \<^verbatim>\<open>Function.prototype\<close>, itself a function of name \<^verbatim>\<open>''\<close> and length 0, has
  \<^verbatim>\<open>constructor\<close>, its methods, and the accessors \<^verbatim>\<open>caller\<close> and \<^verbatim>\<open>arguments\<close>,
  whose getter throws a \<^verbatim>\<open>TypeError\<close>. A built-in function owns \<^verbatim>\<open>name\<close> and
  \<^verbatim>\<open>length\<close>, a constructor also \<^verbatim>\<open>prototype\<close>. The constructor \<^verbatim>\<open>Object\<close> has
  static methods besides; they are not values of the model.
\<close>

definition objectMethods :: "(string \<times> nat) list" where
  "objectMethods =
     [(''hasOwnProperty'', 1), (''isPrototypeOf'', 1), (''propertyIsEnumerable'', 1),
      (''toLocaleString'', 0), (''toString'', 0), (''valueOf'', 0),
      (''__defineGetter__'', 2), (''__defineSetter__'', 2),
      (''__lookupGetter__'', 1), (''__lookupSetter__'', 1)]"

definition functionMethods :: "(string \<times> nat) list" where
  "functionMethods = [(''apply'', 2), (''bind'', 1), (''call'', 1), (''toString'', 0)]"

definition objectStatics :: "string list" where
  "objectStatics =
     [''assign'', ''create'', ''defineProperties'', ''defineProperty'', ''entries'',
      ''freeze'', ''fromEntries'', ''getOwnPropertyDescriptor'',
      ''getOwnPropertyDescriptors'', ''getOwnPropertyNames'', ''getOwnPropertySymbols'',
      ''getPrototypeOf'', ''groupBy'', ''hasOwn'', ''is'', ''isExtensible'', ''isFrozen'',
      ''isSealed'', ''keys'', ''preventExtensions'', ''seal'', ''setPrototypeOf'',
      ''values'']"

text \<open>The names that a plain object inherits.\<close>

definition objectPrototypeKeys :: "string list" where
  "objectPrototypeKeys = ''constructor'' # ''__proto__'' # map fst objectMethods"

fun prototypeOf :: "builtin \<Rightarrow> jsval" where
  "prototypeOf ObjectProto = JNull"
| "prototypeOf FunctionProto = JBuiltin ObjectProto"
| "prototypeOf b = JBuiltin FunctionProto"

text \<open>
  The value of the property \<open>k\<close> of \<^verbatim>\<open>Object.prototype\<close>, read on an object whose
  prototype is \<open>proto\<close>, and the outcome of reading the property \<open>k\<close> of
  \<^verbatim>\<open>Function.prototype\<close>; \<open>None\<close> when there is no such property.
\<close>

definition objectProtoMember :: "jsval \<Rightarrow> string \<Rightarrow> jsval option" where
  "objectProtoMember proto k =
     (if k = ''constructor'' then Some (JBuiltin ObjectCtor)
      else if k = ''__proto__'' then Some proto
      else if k \<in> fst ` set objectMethods then Some (JBuiltin (ObjectMethod k))
      else None)"

definition functionProtoMember :: "string \<Rightarrow> (error + jsval) option" where
  "functionProtoMember k =
     (if k = ''constructor'' then Some (Inr (JBuiltin FunctionCtor))
      else if k = ''caller'' \<or> k = ''arguments'' then Some (Inl TypeError)
      else if k \<in> fst ` set functionMethods then Some (Inr (JBuiltin (FunctionMethod k)))
      else if k = ''name'' then Some (Inr (JStr []))
      else if k = ''length'' then Some (Inr (JNum 0))
      else None)"

definition methodLength :: "(string \<times> nat) list \<Rightarrow> string \<Rightarrow> nat" where
  "methodLength ms n = (case map_of ms n of Some l \<Rightarrow> l | None \<Rightarrow> 0)"

fun builtinOwn :: "builtin \<Rightarrow> string \<Rightarrow> (error + jsval) option" where
  "builtinOwn ObjectCtor k =
     (if k = ''name'' then Some (Inr (JStr ''Object''))
      else if k = ''length'' then Some (Inr (JNum 1))
      else if k = ''prototype'' then Some (Inr (JBuiltin ObjectProto))
      else if k \<in> set objectStatics then Some (Inl Unmodelled)
      else None)"
| "builtinOwn FunctionCtor k =
     (if k = ''name'' then Some (Inr (JStr ''Function''))
      else if k = ''length'' then Some (Inr (JNum 1))
      else if k = ''prototype'' then Some (Inr (JBuiltin FunctionProto))
      else None)"
| "builtinOwn (ObjectMethod n) k =
     (if k = ''name'' then Some (Inr (JStr n))
      else if k = ''length'' then Some (Inr (JNum (methodLength objectMethods n)))
      else None)"
| "builtinOwn (FunctionMethod n) k =
     (if k = ''name'' then Some (Inr (JStr n))
      else if k = ''length'' then Some (Inr (JNum (methodLength functionMethods n)))
      else None)"
| "builtinOwn ObjectProto k = map_option Inr (objectProtoMember JNull k)"
| "builtinOwn FunctionProto k = functionProtoMember k"

text \<open>
  Reading a property of a built-in object: its own property, else (on a function) the
  property of \<^verbatim>\<open>Function.prototype\<close>, else the property of \<^verbatim>\<open>Object.prototype\<close>,
  else \<^verbatim>\<open>undefined\<close>.
\<close>

definition getBuiltinProp :: "builtin \<Rightarrow> string \<Rightarrow> error + jsval" where
  "getBuiltinProp b k =
     (case builtinOwn b k of
        Some r \<Rightarrow> r
      | None \<Rightarrow>
          (if b = ObjectProto then Inr JUndefined
           else case (if b = FunctionProto then None else functionProtoMember k) of
                  Some r \<Rightarrow> r
                | None \<Rightarrow>
                    (case objectProtoMember (prototypeOf b) k of
                       Some v \<Rightarrow> Inr v
                     | None \<Rightarrow> Inr JUndefined)))"

text \<open>
  Names that no built-in prototype defines: the property names that the helpers write
  themselves, other than \<^verbatim>\<open>name\<close> and \<^verbatim>\<open>length\<close>. A boolean, a number, a string or
  an array reads such a name, when it does not own it, as \<^verbatim>\<open>undefined\<close>, and so
  \<^verbatim>\<open>name\<close>; their other inherited members (those of \<^verbatim>\<open>Boolean.prototype\<close>,
  \<^verbatim>\<open>Number.prototype\<close>, \<^verbatim>\<open>String.prototype\<close> and \<^verbatim>\<open>Array.prototype\<close>) are not
  modelled.
\<close>

definition absentKeys :: "string list" where
  "absentKeys =
     [''code'', ''domain'', ''chunkName'', ''path'', ''host'', ''x-forwarded-host'',
      ''moduleName'', ''syncLocale'', ''syncMessages'']"

definition inheritedPrimitive :: "string \<Rightarrow> error + jsval" where
  "inheritedPrimitive k =
     (if k = ''name'' \<or> k \<in> set absentKeys then Inr JUndefined else Inl Unmodelled)"

text \<open>Reading the property \<open>k\<close> (already a string key) of a value.\<close>

definition arrayIndex :: "nat \<Rightarrow> string \<Rightarrow> nat option" where
  "arrayIndex len k = List.find (\<lambda>i. showNat i = k) [0..<len]"

fun getProp :: "jsval \<Rightarrow> string \<Rightarrow> error + jsval" where
  "getProp JUndefined k = Inl TypeError"
| "getProp JNull k = Inl TypeError"
| "getProp (JBool b) k = (if k = ''length'' then Inr JUndefined else inheritedPrimitive k)"
| "getProp (JNum n) k = (if k = ''length'' then Inr JUndefined else inheritedPrimitive k)"
| "getProp (JStr s) k =
     (if k = ''length'' then Inr (JNum (length s))
      else case arrayIndex (length s) k of
             Some i \<Rightarrow> Inr (JStr [s ! i])
           | None \<Rightarrow> inheritedPrimitive k)"
| "getProp (JArr xs) k =
     (if k = ''length'' then Inr (JNum (length xs))
      else case arrayIndex (length xs) k of
             Some i \<Rightarrow> Inr (xs ! i)
           | None \<Rightarrow> inheritedPrimitive k)"
| "getProp (JObj kvs) k =
     (case map_of kvs k of
        Some v \<Rightarrow> Inr v
      | None \<Rightarrow>
          (case objectProtoMember (JBuiltin ObjectProto) k of
             Some v \<Rightarrow> Inr v
           | None \<Rightarrow> Inr JUndefined))"
| "getProp (JBuiltin b) k = getBuiltinProp b k"

text \<open>\<^verbatim>\<open>base[key]\<close> with a key that is any value: the key is converted first.\<close>

definition getPropV :: "jsval \<Rightarrow> jsval \<Rightarrow> error + jsval" where
  "getPropV base key =
     (case base of
        JUndefined \<Rightarrow> Inl TypeError
      | JNull \<Rightarrow> Inl TypeError
      | _ \<Rightarrow> bindE (toStringJS key) (getProp base))"

text \<open>
  The array methods the helpers call. A value that is not an array has no such method
  (none of \<^verbatim>\<open>Object.prototype\<close>, \<^verbatim>\<open>Function.prototype\<close>, \<^verbatim>\<open>String.prototype\<close>,
  \<^verbatim>\<open>Number.prototype\<close> and \<^verbatim>\<open>Boolean.prototype\<close> has a member \<^verbatim>\<open>map\<close>,
  \<^verbatim>\<open>filter\<close>, \<^verbatim>\<open>forEach\<close>, \<^verbatim>\<open>join\<close> or \<^verbatim>\<open>find\<close>, and none but
  \<^verbatim>\<open>String.prototype\<close> a member \<^verbatim>\<open>match\<close> or \<^verbatim>\<open>replace\<close>), so the call throws,
  unless the value is an object that owns a property of that name: a function there
  would be called, which is not modelled.
\<close>

definition noMethod :: "jsval \<Rightarrow> string \<Rightarrow> error" where
  "noMethod v m =
     (case v of
        JObj kvs \<Rightarrow>
          (case map_of kvs m of
             Some f \<Rightarrow> (if callable f then Unmodelled else TypeError)
           | None \<Rightarrow> TypeError)
      | _ \<Rightarrow> TypeError)"

definition arrayMap :: "jsval \<Rightarrow> (jsval \<Rightarrow> error + jsval) \<Rightarrow> error + jsval" where
  "arrayMap a f =
     (case a of
        JArr xs \<Rightarrow> (case sequenceE (map f xs) of Inl e \<Rightarrow> Inl e | Inr ys \<Rightarrow> Inr (JArr ys))
      | _ \<Rightarrow> Inl (noMethod a ''map''))"

fun filterE :: "('a \<Rightarrow> error + bool) \<Rightarrow> 'a list \<Rightarrow> error + 'a list" where
  "filterE p [] = Inr []"
| "filterE p (x # xs) =
     (case p x of Inl e \<Rightarrow> Inl e
      | Inr b \<Rightarrow> (case filterE p xs of Inl e \<Rightarrow> Inl e
                 | Inr ys \<Rightarrow> Inr (if b then x # ys else ys)))"

definition arrayFilter :: "jsval \<Rightarrow> (jsval \<Rightarrow> error + bool) \<Rightarrow> error + jsval" where
  "arrayFilter a p =
     (case a of
        JArr xs \<Rightarrow> (case filterE p xs of Inl e \<Rightarrow> Inl e | Inr ys \<Rightarrow> Inr (JArr ys))
      | _ \<Rightarrow> Inl (noMethod a ''filter''))"

definition arrayJoin :: "jsval \<Rightarrow> string \<Rightarrow> error + string" where
  "arrayJoin a sep =
     (case a of
        JArr xs \<Rightarrow>
          (case sequenceE (map (\<lambda>x. if x = JUndefined \<or> x = JNull then Inr [] else toStringJS x) xs) of
             Inl e \<Rightarrow> Inl e
           | Inr ss \<Rightarrow> Inr (intercalate sep ss))
      | _ \<Rightarrow> Inl (noMethod a ''join''))"

section \<open>The locale-code extractor\<close>

text \<open>
  Modelled from the spec: the constants \<^verbatim>\<open>LOCALE_CODE_KEY\<close> and
  \<^verbatim>\<open>LOCALE_DOMAIN_KEY\<close> are required from \<^verbatim>\<open>./constants\<close>, which is not among the
  sources; the specification calls them the record's \<^verbatim>\<open>code\<close> and \<^verbatim>\<open>domain\<close>
  fields.
\<close>

definition LOCALE_CODE_KEY :: string where
  "LOCALE_CODE_KEY = ''code''"

definition LOCALE_DOMAIN_KEY :: string where
  "LOCALE_DOMAIN_KEY = ''domain''"

text \<open>
  \<^verbatim>\<open>getLocaleCodes = (locales = []) => ...\<close>: a parameter default replaces
  \<^verbatim>\<open>undefined\<close> only.
\<close>

definition getLocaleCodes :: "jsval \<Rightarrow> error + jsval" where
  "getLocaleCodes locales0 =
     (let locales = (if locales0 = JUndefined then JArr [] else locales0) in
      bindE (getProp locales ''length'') (\<lambda>len.
        if truthy len then
          bindE (getProp locales ''0'') (\<lambda>first.
            if typeof first = ''string'' then Inr locales
            else
              bindE (getProp first LOCALE_CODE_KEY) (\<lambda>c.
                if typeof c = ''string''
                then arrayMap locales (\<lambda>locale. getProp locale LOCALE_CODE_KEY)
                else Inr (JArr [])))
        else Inr (JArr [])))"

section \<open>Regular expressions\<close>

text \<open>
  \<^verbatim>\<open>new RegExp(source, 'i')\<close> is modelled for a fragment of the pattern syntax: pattern
  characters, \<^verbatim>\<open>.\<close>, the assertions \<^verbatim>\<open>^\<close> and \<^verbatim>\<open>$\<close>, capturing groups,
  non-capturing groups \<^verbatim>\<open>(?:...)\<close>, alternation and the greedy quantifier \<^verbatim>\<open>?\<close>.
  This is the syntax the helpers write themselves; the strings they interpolate are
  parsed as part of the source, as the engine does. A source outside the fragment
  (a backslash, a character class, braces, \<^verbatim>\<open>*\<close>, \<^verbatim>\<open>+\<close>, a lazy quantifier, a
  lookaround or a named group) gives \<open>Unmodelled\<close>.
\<close>

datatype regex =
    RChar char
  | RAny
  | RBol
  | REol
  | REmpty
  | RSeq regex regex
  | RAlt regex regex
  | RCap nat regex
  | RNonCap regex
  | ROpt regex

definition syntaxChars :: "char list" where
  "syntaxChars = CHR 0x5C # ''^$.*+?()[]{}|''"

definition regexLiteral :: "string \<Rightarrow> bool" where
  "regexLiteral s = list_all (\<lambda>c. c \<notin> set syntaxChars) s"

definition mkSeq :: "regex list \<Rightarrow> regex" where
  "mkSeq ts = foldr RSeq ts REmpty"

fun mkDisj :: "regex list \<Rightarrow> regex" where
  "mkDisj [] = REmpty"
| "mkDisj [a] = a"
| "mkDisj (a # b # bs) = RAlt a (mkDisj (b # bs))"

definition mkGroup :: "nat option \<Rightarrow> regex \<Rightarrow> regex" where
  "mkGroup k r = (case k of Some n \<Rightarrow> RCap n r | None \<Rightarrow> RNonCap r)"

text \<open>
  The parser reads the source left to right. \<open>alts\<close> are the finished alternatives of
  the disjunction being read and \<open>cur\<close> the terms of its current alternative; \<open>stk\<close>
  holds, for every group still open, its kind and the suspended disjunction around it;
  \<open>n\<close> counts the capturing groups opened so far (groups are numbered by their left
  parenthesis). The result is the pattern and its number of capturing groups.
\<close>

type_synonym frame = "nat option \<times> regex list \<times> regex list"

definition quantify :: "regex list \<Rightarrow> error + regex list" where
  "quantify cur =
     (if cur = [] then Inl SyntaxError
      else case last cur of
             RBol \<Rightarrow> Inl SyntaxError
           | REol \<Rightarrow> Inl SyntaxError
           | ROpt r \<Rightarrow> Inl Unmodelled
           | t \<Rightarrow> Inr (butlast cur @ [ROpt t]))"

fun parseRE :: "frame list \<Rightarrow> regex list \<Rightarrow> regex list \<Rightarrow> nat \<Rightarrow> string \<Rightarrow> error + (regex \<times> nat)" where
  "parseRE stk alts cur n [] =
     (if stk = [] then Inr (mkDisj (alts @ [mkSeq cur]), n) else Inl SyntaxError)"
| "parseRE stk alts cur n (c # cs) =
     (if c = CHR ''('' then
        (if take 1 cs = ''?'' then
           (if take 2 cs = ''?:'' then parseRE ((None, alts, cur) # stk) [] [] n (drop 2 cs)
            else if take 2 cs = ''?='' \<or> take 2 cs = ''?!'' \<or> take 2 cs = ''?<'' then Inl Unmodelled
            else Inl SyntaxError)
         else parseRE ((Some (Suc n), alts, cur) # stk) [] [] (Suc n) cs)
      else if c = CHR '')'' then
        (case stk of
           [] \<Rightarrow> Inl SyntaxError
         | (k, palts, pcur) # stk' \<Rightarrow>
             parseRE stk' palts (pcur @ [mkGroup k (mkDisj (alts @ [mkSeq cur]))]) n cs)
      else if c = CHR ''|'' then parseRE stk (alts @ [mkSeq cur]) [] n cs
      else if c = CHR ''?'' then
        (case quantify cur of Inl e \<Rightarrow> Inl e | Inr cur' \<Rightarrow> parseRE stk alts cur' n cs)
      else if c = CHR ''.'' then parseRE stk alts (cur @ [RAny]) n cs
      else if c = CHR ''^'' then parseRE stk alts (cur @ [RBol]) n cs
      else if c = CHR ''$'' then parseRE stk alts (cur @ [REol]) n cs
      else if c \<in> set syntaxChars then Inl Unmodelled
      else parseRE stk alts (cur @ [RChar c]) n cs)"

declare parseRE.simps(2) [simp del]

definition newRegExp :: "string \<Rightarrow> error + (regex \<times> nat)" where
  "newRegExp source = parseRE [] [] [] 0 source"

text \<open>
  Matching under the \<^verbatim>\<open>i\<close> flag compares canonicalised code units: the code unit of
  the character's upper case when that is a single code unit (and, for a character
  outside ASCII, its upper case is outside ASCII too). Within the code units below 256:
  the ASCII letters, the Latin-1 letters \<^verbatim>\<open>0xE0..0xFE\<close> but \<^verbatim>\<open>0xF7\<close>, the micro sign
  (to \<^verbatim>\<open>U+039C\<close>) and \<^verbatim>\<open>0xFF\<close> (to \<^verbatim>\<open>U+0178\<close>).
\<close>

definition canonicalize :: "char \<Rightarrow> nat" where
  "canonicalize c =
     (let n = (of_char c :: nat) in
      if 97 \<le> n \<and> n \<le> 122 then n - 32
      else if n = 181 then 924
      else if n = 255 then 376
      else if 224 \<le> n \<and> n \<le> 254 \<and> n \<noteq> 247 then n - 32
      else n)"

definition lineTerminator :: "char \<Rightarrow> bool" where
  "lineTerminator c = ((of_char c :: nat) = 10 \<or> (of_char c :: nat) = 13)"

type_synonym captures = "(nat \<times> string) list"
type_synonym mstate = "nat \<times> captures"

definition setCap :: "nat \<Rightarrow> string \<Rightarrow> captures \<Rightarrow> captures" where
  "setCap n s caps = (n, s) # filter (\<lambda>kv. fst kv \<noteq> n) caps"

definition clearCaps :: "nat list \<Rightarrow> captures \<Rightarrow> captures" where
  "clearCaps ks caps = filter (\<lambda>kv. fst kv \<notin> set ks) caps"

fun groupsOf :: "regex \<Rightarrow> nat list" where
  "groupsOf (RSeq a b) = groupsOf a @ groupsOf b"
| "groupsOf (RAlt a b) = groupsOf a @ groupsOf b"
| "groupsOf (RCap n r) = n # groupsOf r"
| "groupsOf (RNonCap r) = groupsOf r"
| "groupsOf (ROpt r) = groupsOf r"
| "groupsOf r = []"

text \<open>
  The matcher of a pattern at a state (an index into the input and the captures so
  far): every state the pattern can end in, in the order backtracking tries them. A
  sequence tries the ends of its first part in order and, for each, those of the second;
  an alternation tries its left side first; a group records the text it consumed; an
  optional term first tries the term (with the captures inside it cleared, and refusing
  an empty match of the term), then skips it.
\<close>

fun matchesRE :: "string \<Rightarrow> regex \<Rightarrow> mstate \<Rightarrow> mstate list" where
  "matchesRE inp (RChar c) st =
     (if fst st < length inp \<and> canonicalize (inp ! fst st) = canonicalize c
      then [(Suc (fst st), snd st)] else [])"
| "matchesRE inp RAny st =
     (if fst st < length inp \<and> \<not> lineTerminator (inp ! fst st)
      then [(Suc (fst st), snd st)] else [])"
| "matchesRE inp RBol st = (if fst st = 0 then [st] else [])"
| "matchesRE inp REol st = (if fst st = length inp then [st] else [])"
| "matchesRE inp REmpty st = [st]"
| "matchesRE inp (RSeq a b) st = concat (map (matchesRE inp b) (matchesRE inp a st))"
| "matchesRE inp (RAlt a b) st = matchesRE inp a st @ matchesRE inp b st"
| "matchesRE inp (RCap n r) st =
     map (\<lambda>st'. (fst st', setCap n (take (fst st' - fst st) (drop (fst st) inp)) (snd st')))
         (matchesRE inp r st)"
| "matchesRE inp (RNonCap r) st = matchesRE inp r st"
| "matchesRE inp (ROpt r) st =
     filter (\<lambda>st'. fst st' \<noteq> fst st) (matchesRE inp r (fst st, clearCaps (groupsOf r) (snd st)))
     @ [st]"

text \<open>
  \<^verbatim>\<open>RegExp.prototype.exec\<close> of a non-global pattern: the first start index, from 0 to
  the length of the input, at which the pattern matches, with the first end state there.
\<close>

definition execRE :: "regex \<Rightarrow> string \<Rightarrow> (nat \<times> mstate) option" where
  "execRE r inp =
     (case concat (map (\<lambda>i. map (Pair i) (take 1 (matchesRE inp r (i, [])))) [0..<Suc (length inp)]) of
        [] \<Rightarrow> None
      | m # ms \<Rightarrow> Some m)"

text \<open>
  \<^verbatim>\<open>str.match(regexp)\<close>: \<^verbatim>\<open>null\<close>, or the array of the matched text and of every
  capturing group's text (\<^verbatim>\<open>undefined\<close> for a group that took no part). Only a
  string has the method.
\<close>

definition matchJS :: "jsval \<Rightarrow> regex \<times> nat \<Rightarrow> error + jsval" where
  "matchJS str re =
     (case str of
        JStr s \<Rightarrow>
          (case execRE (fst re) s of
             None \<Rightarrow> Inr JNull
           | Some (i, j, caps) \<Rightarrow>
               Inr (JArr (JStr (take (j - i) (drop i s)) #
                          map (\<lambda>k. case map_of caps k of None \<Rightarrow> JUndefined | Some t \<Rightarrow> JStr t)
                              [1..<Suc (snd re)])))
      | _ \<Rightarrow> Inl (noMethod str ''match''))"

text \<open>
  \<^verbatim>\<open>str.replace(regexp, '')\<close> with a non-global pattern: the first match is cut out.
\<close>

definition replaceJS :: "jsval \<Rightarrow> regex \<times> nat \<Rightarrow> error + jsval" where
  "replaceJS str re =
     (case str of
        JStr s \<Rightarrow>
          (case execRE (fst re) s of
             None \<Rightarrow> Inr (JStr s)
           | Some (i, j, caps) \<Rightarrow> Inr (JStr (take i s @ drop j s)))
      | _ \<Rightarrow> Inl (noMethod str ''replace''))"

section \<open>The page-options resolver\<close>

text \<open>
  \<^verbatim>\<open>options.paths[locale] = value\<close>: the paths object is kept as an association list
  with one entry per key. The object starts as \<^verbatim>\<open>{}\<close>, so it never owns the key
  \<^verbatim>\<open>__proto__\<close>: an assignment to that key runs the setter inherited from
  \<^verbatim>\<open>Object.prototype\<close>, which adds no property and, for a value that is neither an
  object nor \<^verbatim>\<open>null\<close>, does nothing (for an object it would replace the prototype of
  the paths object, which is not modelled).
\<close>

definition setPath :: "jsval \<Rightarrow> jsval \<Rightarrow> (string \<times> jsval) list \<Rightarrow> error + (string \<times> jsval) list" where
  "setPath locale v paths =
     bindE (toStringJS locale) (\<lambda>k.
       if k = ''__proto__'' then
         (if typeof v = ''object'' \<or> typeof v = ''function'' then Inl Unmodelled else Inr paths)
       else Inr (AList.update k v paths))"

text \<open>The body of the \<^verbatim>\<open>forEach\<close> callback that constructs the paths object.\<close>

definition pathStep :: "jsval \<Rightarrow> jsval \<Rightarrow> jsval \<Rightarrow> (string \<times> jsval) list \<Rightarrow> error + (string \<times> jsval) list" where
  "pathStep pageOptions defaultLocale locale paths =
     bindE (getPropV pageOptions locale) (\<lambda>own.
       if typeof own = ''string'' then setPath locale own paths
       else
         bindE (getPropV pageOptions defaultLocale) (\<lambda>dflt.
           if typeof dflt = ''string'' then setPath locale dflt paths
           else Inr paths))"

fun forEachPath :: "jsval \<Rightarrow> jsval \<Rightarrow> jsval list \<Rightarrow> (string \<times> jsval) list \<Rightarrow> error + (string \<times> jsval) list" where
  "forEachPath pageOptions defaultLocale [] paths = Inr paths"
| "forEachPath pageOptions defaultLocale (locale # ls) paths =
     bindE (pathStep pageOptions defaultLocale locale paths)
           (forEachPath pageOptions defaultLocale ls)"

definition mkOptions :: "jsval \<Rightarrow> (string \<times> jsval) list \<Rightarrow> jsval" where
  "mkOptions locales paths = JObj [(''locales'', locales), (''paths'', JObj paths)]"

text \<open>
  The lookup key: \<^verbatim>\<open>pattern = new RegExp(`${pagesDir}/`, 'i')\<close> and
  \<^verbatim>\<open>chunkName = route.chunkName ? route.chunkName.replace(pattern, '') : route.name\<close>.
\<close>

definition chunkNameOf :: "jsval \<Rightarrow> jsval \<Rightarrow> error + jsval" where
  "chunkNameOf route pagesDir =
     bindE (toStringJS pagesDir) (\<lambda>dir.
     bindE (newRegExp (dir @ ''/'')) (\<lambda>pattern.
     bindE (getProp route ''chunkName'') (\<lambda>cn.
       if truthy cn then replaceJS cn pattern else getProp route ''name'')))"

definition getPageOptions :: "jsval \<Rightarrow> jsval \<Rightarrow> jsval \<Rightarrow> jsval \<Rightarrow> jsval \<Rightarrow> error + jsval" where
  "getPageOptions route pages locales pagesDir defaultLocale =
     bindE (getLocaleCodes locales) (\<lambda>codes.
     bindE (chunkNameOf route pagesDir) (\<lambda>chunkName.
     bindE (getPropV pages chunkName) (\<lambda>pageOptions.
       if pageOptions = JBool False then Inr (JBool False)
       else if \<not> truthy pageOptions then Inr (mkOptions codes [])
       else
         bindE (arrayFilter codes (\<lambda>locale.
                  bindE (getPropV pageOptions locale) (\<lambda>v. Inr (v \<noteq> JBool False)))) (\<lambda>kept.
           case kept of
             JArr ls \<Rightarrow> bindE (forEachPath pageOptions defaultLocale ls [])
                              (\<lambda>paths. Inr (mkOptions kept paths))
           | _ \<Rightarrow> Inl TypeError))))"

section \<open>The route-locale extractor\<close>

text \<open>
  \<^verbatim>\<open>getLocaleFromRoute = (route = {}, routesNameSeparator = '',
  defaultLocaleRouteNameSuffix = '', locales = []) => ...\<close>
\<close>

definition orDefault :: "jsval \<Rightarrow> jsval \<Rightarrow> jsval" where
  "orDefault v d = (if v = JUndefined then d else v)"

text \<open>\<^verbatim>\<open>if (matches && matches.length > 1) return matches[1]\<close>, else fall to \<^verbatim>\<open>null\<close>.\<close>

definition firstCapture :: "jsval \<Rightarrow> jsval" where
  "firstCapture matches =
     (case matches of
        JArr ms \<Rightarrow> (if length ms > 1 then ms ! 1 else JNull)
      | _ \<Rightarrow> JNull)"

definition getLocaleFromRoute :: "jsval \<Rightarrow> jsval \<Rightarrow> jsval \<Rightarrow> jsval \<Rightarrow> error + jsval" where
  "getLocaleFromRoute route0 routesNameSeparator0 defaultLocaleRouteNameSuffix0 locales0 =
     (let route = orDefault route0 (JObj []);
          routesNameSeparator = orDefault routesNameSeparator0 (JStr []);
          defaultLocaleRouteNameSuffix = orDefault defaultLocaleRouteNameSuffix0 (JStr []);
          locales = orDefault locales0 (JArr [])
      in
      bindE (getLocaleCodes locales) (\<lambda>codes.
      bindE (arrayJoin codes ''|'') (\<lambda>joined.
      let localesPattern = ''('' @ joined @ '')'' in
      bindE (toStringJS routesNameSeparator) (\<lambda>sep.
      bindE (toStringJS defaultLocaleRouteNameSuffix) (\<lambda>suffix.
      let defaultSuffixPattern = ''(?:'' @ sep @ suffix @ '')?'' in
      bindE (getProp route ''name'') (\<lambda>name.
        if truthy name then
          bindE (newRegExp (sep @ localesPattern @ defaultSuffixPattern @ ''$'')) (\<lambda>regexp.
          bindE (matchJS name regexp) (\<lambda>matches. Inr (firstCapture matches)))
        else
          bindE (getProp route ''path'') (\<lambda>path.
            if truthy path then
              bindE (newRegExp (''^/'' @ localesPattern @ ''/'')) (\<lambda>regexp.
              bindE (matchJS path regexp) (\<lambda>matches. Inr (firstCapture matches)))
            else Inr JNull)))))))"

section \<open>The domain-locale resolver\<close>

text \<open>
  \<^verbatim>\<open>getForwarded\<close>, \<^verbatim>\<open>getHostname\<close> and \<^verbatim>\<open>getLocaleDomain\<close> take no argument: they
  read the globals \<^verbatim>\<open>process.browser\<close>, \<^verbatim>\<open>window.location.href\<close>, \<^verbatim>\<open>req.headers\<close>
  and \<^verbatim>\<open>app.i18n\<close>. The model passes them as a record.
\<close>

record ambient =
  browser :: bool
  href :: string
  headers :: jsval
  forwardedHost :: jsval
  i18nLocales :: jsval

text \<open>\<^verbatim>\<open>str.split('/')\<close>: the pieces between the separators, at least one piece.\<close>

fun splitOn :: "char \<Rightarrow> string \<Rightarrow> string list" where
  "splitOn c [] = [[]]"
| "splitOn c (x # xs) =
     (if x = c then [] # splitOn c xs
      else case splitOn c xs of
             [] \<Rightarrow> [[x]]
           | y # ys \<Rightarrow> (x # y) # ys)"

definition hrefAuthority :: "string \<Rightarrow> jsval" where
  "hrefAuthority h =
     (let parts = splitOn CHR ''/'' h in
      if 2 < length parts then JStr (parts ! 2) else JUndefined)"

definition getForwarded :: "ambient \<Rightarrow> error + jsval" where
  "getForwarded env =
     (if browser env then Inr (hrefAuthority (href env))
      else
        bindE (getProp (headers env) ''x-forwarded-host'') (\<lambda>fwd.
          if truthy fwd then Inr fwd else getProp (headers env) ''host''))"

definition getHostname :: "ambient \<Rightarrow> error + jsval" where
  "getHostname env =
     (if browser env then Inr (hrefAuthority (href env))
      else getProp (headers env) ''host'')"

text \<open>
  \<^verbatim>\<open>array.find(l => l[LOCALE_DOMAIN_KEY] === hostname)\<close>: the first element the
  callback accepts, \<^verbatim>\<open>undefined\<close> when there is none. Strict equality compares
  primitives by value and objects by identity; a locale's domain and a header value are
  never the same object, so two arrays or two objects are unequal; a built-in object is
  identical to itself only.
\<close>

fun strictEq :: "jsval \<Rightarrow> jsval \<Rightarrow> bool" where
  "strictEq (JArr xs) b = False"
| "strictEq (JObj kvs) b = False"
| "strictEq a b = (a = b)"

fun findDomain :: "jsval \<Rightarrow> jsval list \<Rightarrow> error + jsval" where
  "findDomain hostname [] = Inr JUndefined"
| "findDomain hostname (l # ls) =
     bindE (getProp l LOCALE_DOMAIN_KEY) (\<lambda>d.
       if strictEq d hostname then Inr l else findDomain hostname ls)"

definition getLocaleDomain :: "ambient \<Rightarrow> error + jsval" where
  "getLocaleDomain env =
     bindE (if truthy (forwardedHost env) then getForwarded env else getHostname env) (\<lambda>hostname.
       if truthy hostname then
         (case i18nLocales env of
            JArr ls \<Rightarrow>
              bindE (findDomain hostname ls) (\<lambda>localeDomain.
                if truthy localeDomain then getProp localeDomain LOCALE_CODE_KEY
                else Inr JNull)
          | _ \<Rightarrow> Inl (noMethod (i18nLocales env) ''find''))
       else Inr JNull)"

section \<open>The store synchronizer\<close>

text \<open>
  \<^verbatim>\<open>syncVuex\<close> is an async function over the globals \<^verbatim>\<open>vuex\<close> (the module's
  store options, or a falsy value) and \<^verbatim>\<open>store\<close>. Each \<^verbatim>\<open>await\<close> suspends the
  function until the dispatched promise settles, so the function is modelled as a
  sequential computation: the store is the outcome of a dispatch (\<open>None\<close> when its
  promise fulfils, \<open>Some e\<close> when it rejects with \<open>e\<close>) as a function of
  the dispatches made before it, and the result is the list of dispatches made together
  with how the returned promise settles. An exception thrown inside an async function
  rejects its promise.
\<close>

datatype 'e settled = Resolved | Rejected 'e | RejectedThrown error

type_synonym 'e store = "(string \<times> jsval) list \<Rightarrow> string \<Rightarrow> jsval \<Rightarrow> 'e option"

definition dispatchStep ::
  "'e store \<Rightarrow> jsval \<Rightarrow> string \<Rightarrow> jsval \<Rightarrow> (string \<times> jsval) list \<Rightarrow>
   ((string \<times> jsval) list \<Rightarrow> (string \<times> jsval) list \<times> 'e settled) \<Rightarrow>
   (string \<times> jsval) list \<times> 'e settled" where
  "dispatchStep st vuex action payload done cont =
     (case bindE (getProp vuex ''moduleName'') toStringJS of
        Inl e \<Rightarrow> (done, RejectedThrown e)
      | Inr moduleName \<Rightarrow>
          (case st done (moduleName @ action) payload of
             Some e \<Rightarrow> (done @ [(moduleName @ action, payload)], Rejected e)
           | None \<Rightarrow> cont (done @ [(moduleName @ action, payload)])))"

definition syncFlag :: "jsval \<Rightarrow> string \<Rightarrow> bool" where
  "syncFlag vuex k = (case getProp vuex k of Inr v \<Rightarrow> truthy v | Inl e \<Rightarrow> False)"

definition syncVuex ::
  "jsval \<Rightarrow> 'e store option \<Rightarrow> jsval \<Rightarrow> jsval \<Rightarrow> (string \<times> jsval) list \<times> 'e settled" where
  "syncVuex vuex store locale0 messages0 =
     (let locale = orDefault locale0 JNull; messages = orDefault messages0 JNull in
      case store of
        None \<Rightarrow> ([], Resolved)
      | Some st \<Rightarrow>
          if truthy vuex then
            (let second = (\<lambda>done.
                   if messages \<noteq> JNull \<and> syncFlag vuex ''syncMessages''
                   then dispatchStep st vuex ''/setMessages'' messages done (\<lambda>done'. (done', Resolved))
                   else (done, Resolved))
             in if locale \<noteq> JNull \<and> syncFlag vuex ''syncLocale''
                then dispatchStep st vuex ''/setLocale'' locale [] second
                else second [])
          else ([], Resolved))"

section \<open>Notions of the specification\<close>

text \<open>A value that is neither \<^verbatim>\<open>undefined\<close> nor \<^verbatim>\<open>null\<close>.\<close>

definition present :: "jsval \<Rightarrow> bool" where
  "present v = (v \<noteq> JUndefined \<and> v \<noteq> JNull)"

text \<open>The code field of an element of the locale list.\<close>

definition codeField :: "jsval \<Rightarrow> jsval" where
  "codeField l = (case getProp l LOCALE_CODE_KEY of Inr v \<Rightarrow> v | Inl e \<Rightarrow> JUndefined)"

text \<open>
  The entry of a page's options for a locale (\<^verbatim>\<open>undefined\<close> when there is none), the
  codes whose entry is not exactly \<^verbatim>\<open>false\<close>, and the custom path of a locale: its own
  entry if that is a string, else the default locale's entry if that is a string, else
  none.
\<close>

definition entryOf :: "(string \<times> jsval) list \<Rightarrow> string \<Rightarrow> jsval" where
  "entryOf po k = (case map_of po k of Some v \<Rightarrow> v | None \<Rightarrow> JUndefined)"

definition enabledCodes :: "(string \<times> jsval) list \<Rightarrow> string list \<Rightarrow> string list" where
  "enabledCodes po cs = filter (\<lambda>c. entryOf po c \<noteq> JBool False) cs"

definition customPath :: "(string \<times> jsval) list \<Rightarrow> string \<Rightarrow> string \<Rightarrow> jsval option" where
  "customPath po d c =
     (if typeof (entryOf po c) = ''string'' then Some (entryOf po c)
      else if typeof (entryOf po d) = ''string'' then Some (entryOf po d)
      else None)"

text \<open>
  The assignment of a path: a string is stored under the locale's code, unless the code
  is \<^verbatim>\<open>__proto__\<close>.
\<close>

definition putPath :: "string \<Rightarrow> jsval \<Rightarrow> (string \<times> jsval) list \<Rightarrow> (string \<times> jsval) list" where
  "putPath c p paths = (if c = ''__proto__'' then paths else AList.update c p paths)"

text \<open>
  What a plain object with the own properties \<open>po\<close> gives for the key \<open>k\<close>: its own
  entry, else what it inherits under that name, else \<^verbatim>\<open>undefined\<close>.
\<close>

definition readObj :: "(string \<times> jsval) list \<Rightarrow> string \<Rightarrow> jsval" where
  "readObj po k =
     (case map_of po k of
        Some v \<Rightarrow> v
      | None \<Rightarrow> (case objectProtoMember (JBuiltin ObjectProto) k of
                   Some v \<Rightarrow> v
                 | None \<Rightarrow> JUndefined))"


text \<open>
  The shapes of the arguments: a locale list is absent, a list of code strings, or a
  list of records whose code field is a string (\<open>cs\<close> are its codes); a string
  parameter is a string or absent (then its default, the empty string, stands for it);
  a route is an object or absent (then the empty object stands for it).
\<close>

fun recordWithCode :: "jsval \<Rightarrow> string \<Rightarrow> bool" where
  "recordWithCode (JObj kvs) c = (map_of kvs LOCALE_CODE_KEY = Some (JStr c))"
| "recordWithCode v c = False"

fun localeList :: "jsval \<Rightarrow> string list \<Rightarrow> bool" where
  "localeList JUndefined cs = (cs = [])"
| "localeList (JArr ls) cs = (ls = map JStr cs \<or> list_all2 recordWithCode ls cs)"
| "localeList v cs = False"

fun strOrAbsent :: "jsval \<Rightarrow> string \<Rightarrow> bool" where
  "strOrAbsent JUndefined s = (s = [])"
| "strOrAbsent (JStr t) s = (s = t)"
| "strOrAbsent v s = False"

fun routeFields :: "jsval \<Rightarrow> (string \<times> jsval) list \<Rightarrow> bool" where
  "routeFields JUndefined r = (r = [])"
| "routeFields (JObj kvs) r = (r = kvs)"
| "routeFields v r = False"

text \<open>
  Matching as the specification words it. Two texts are equal case-insensitively when
  their canonicalised code units agree; \<open>ciAt inp i s\<close> says that \<open>inp\<close> continues
  at index \<open>i\<close> with a text equal to \<open>s\<close> case-insensitively.
\<close>

definition ciEq :: "string \<Rightarrow> string \<Rightarrow> bool" where
  "ciEq a b = (map canonicalize a = map canonicalize b)"

definition ciAt :: "string \<Rightarrow> nat \<Rightarrow> string \<Rightarrow> bool" where
  "ciAt inp i s = ciEq (take (length s) (drop i inp)) s"




text \<open>
  The route name matches at index \<open>i\<close> with the code \<open>c\<close>: the separator, then the
  code, then the end of the name, or the separator and the default suffix and then the
  end of the name.
\<close>

definition tailOk :: "string \<Rightarrow> nat \<Rightarrow> string \<Rightarrow> bool" where
  "tailOk inp k ss = (k = length inp \<or> (k + length ss = length inp \<and> ciAt inp k ss))"

definition nameMatchAt :: "string \<Rightarrow> string \<Rightarrow> string \<Rightarrow> nat \<Rightarrow> string \<Rightarrow> bool" where
  "nameMatchAt sep sfx name i c =
     (ciAt name i sep \<and> ciAt name (i + length sep) c \<and>
      tailOk name (i + length sep + length c) (sep @ sfx))"

text \<open>
  An empty list of codes joins to the empty string: the group then holds one
  alternative, the empty one.
\<close>

definition codesOr :: "string list \<Rightarrow> string list" where
  "codesOr cs = (if cs = [] then [[]] else cs)"

text \<open>
  The texts the name can give as the code, in the order the search finds them: by start
  index, then by the order of the codes in the list. The text is the part of the name
  that matched the code (in the name's own letter case).
\<close>

definition nameCaptures :: "string \<Rightarrow> string \<Rightarrow> string list \<Rightarrow> string \<Rightarrow> string list" where
  "nameCaptures sep sfx cs name =
     concat (map (\<lambda>i. concat (map (\<lambda>c. if nameMatchAt sep sfx name i c
                                        then [take (length c) (drop (i + length sep) name)] else [])
                                  cs))
                 [0..<Suc (length name)])"

text \<open>The path starts with a slash, the code and a slash.\<close>

definition pathMatch :: "string \<Rightarrow> string \<Rightarrow> bool" where
  "pathMatch p c = (ciAt p 0 ''/'' \<and> ciAt p 1 c \<and> ciAt p (1 + length c) ''/'')"

definition pathCaptures :: "string list \<Rightarrow> string \<Rightarrow> string list" where
  "pathCaptures cs p =
     concat (map (\<lambda>c. if pathMatch p c then [take (length c) (drop 1 p)] else []) cs)"

text \<open>The first of the texts, or \<^verbatim>\<open>null\<close> when there is none.\<close>

definition firstOr :: "string list \<Rightarrow> jsval" where
  "firstOr caps = (case caps of [] \<Rightarrow> JNull | cap # rest \<Rightarrow> JStr cap)"

text \<open>
  The patterns that the sources of the route-locale extractor parse to when the
  separator, the suffix and the codes hold no syntax character.
\<close>

definition lit :: "string \<Rightarrow> regex list" where
  "lit s = map RChar s"

definition altCodes :: "string list \<Rightarrow> regex" where
  "altCodes cs = mkDisj (map (\<lambda>c. mkSeq (lit c)) (codesOr cs))"

definition nameRegex :: "string \<Rightarrow> string \<Rightarrow> string list \<Rightarrow> regex" where
  "nameRegex sep sfx cs =
     mkSeq (lit sep @ [RCap 1 (altCodes cs), ROpt (RNonCap (mkSeq (lit (sep @ sfx)))), REol])"

definition pathRegex :: "string list \<Rightarrow> regex" where
  "pathRegex cs = mkSeq [RBol, RChar CHR ''/'', RCap 1 (altCodes cs), RChar CHR ''/'']"

text \<open>
  A dispatch the synchronizer is to make: the value is neither \<^verbatim>\<open>undefined\<close> (which
  the parameter default turns into \<^verbatim>\<open>null\<close>) nor \<^verbatim>\<open>null\<close>, and the flag of the
  store options is truthy. The dispatches expected of one call, in their order.
\<close>

definition wanted :: "jsval \<Rightarrow> string \<Rightarrow> jsval \<Rightarrow> bool" where
  "wanted vuex flag payload = (payload \<noteq> JUndefined \<and> payload \<noteq> JNull \<and> syncFlag vuex flag)"

definition expectedDispatches :: "jsval \<Rightarrow> string \<Rightarrow> jsval \<Rightarrow> jsval \<Rightarrow> (string \<times> jsval) list" where
  "expectedDispatches vuex m locale messages =
     (if wanted vuex ''syncLocale'' locale then [(m @ ''/setLocale'', locale)] else []) @
     (if wanted vuex ''syncMessages'' messages then [(m @ ''/setMessages'', messages)] else [])"

text \<open>
  The domain field of an element of the locale list, and the hostname of the active
  context: \<^verbatim>\<open>app.i18n.forwardedHost ? getForwarded() : getHostname()\<close>.
\<close>

definition domainField :: "jsval \<Rightarrow> jsval" where
  "domainField l = (case getProp l LOCALE_DOMAIN_KEY of Inr v \<Rightarrow> v | Inl e \<Rightarrow> JUndefined)"

definition hostnameOf :: "ambient \<Rightarrow> error + jsval" where
  "hostnameOf env = (if truthy (forwardedHost env) then getForwarded env else getHostname env)"

section \<open>Example configurations\<close>

text \<open>
  A store whose dispatches all fulfil, a store whose \<^verbatim>\<open>i18n/setLocale\<close> action
  rejects, store options with both synchronisations enabled, a locale list with domains
  and a server-side request for the host \<^verbatim>\<open>fr.example.com\<close> with the forwarded-host
  setting enabled.
\<close>

definition okStore :: "unit store" where
  "okStore = (\<lambda>h a p. None)"

definition failingStore :: "string store" where
  "failingStore = (\<lambda>h a p. if a = ''i18n/setLocale'' then Some ''boom'' else None)"

definition vuexOn :: jsval where
  "vuexOn = JObj [(''moduleName'', JStr ''i18n''), (''syncLocale'', JBool True), (''syncMessages'', JBool True)]"

definition exampleLocales :: "jsval list" where
  "exampleLocales =
     [JObj [(''code'', JStr ''en''), (''domain'', JStr ''example.com'')],
      JObj [(''code'', JStr ''fr''), (''domain'', JStr ''fr.example.com'')]]"

definition serverRequest :: ambient where
  "serverRequest = \<lparr> browser = False, href = [],
                      headers = JObj [(''host'', JStr ''fr.example.com'')],
                      forwardedHost = JBool True, i18nLocales = JArr exampleLocales \<rparr>"

section \<open>Basic facts\<close>

lemma bindE_Inl [simp]: "bindE (Inl e) f = Inl e"
  by (simp add: bindE_def)

lemma bindE_Inr [simp]: "bindE (Inr v) f = f v"
  by (simp add: bindE_def)

lemma showNat_0 [simp]: "showNat 0 = ''0''"
  by (simp add: showNat.simps digit_def)

lemma arrayIndex_0 [simp]: "arrayIndex (Suc n) ''0'' = Some 0"
  by (simp add: arrayIndex_def upt_rec)

lemma getProp_arr_0 [simp]: "getProp (JArr (x # xs)) ''0'' = Inr x"
  by simp

lemma typeof_string_iff: "typeof v = ''string'' \<longleftrightarrow> (\<exists>s. v = JStr s)"
  by (cases v) auto

lemma absent_all:
  "list_all (\<lambda>k. objectProtoMember p k = None \<and> functionProtoMember k = None \<and>
                  k \<notin> set objectStatics \<and> k \<noteq> ''name'' \<and> k \<noteq> ''length'' \<and>
                  k \<noteq> ''prototype'')
            absentKeys"
  by (simp add: absentKeys_def objectProtoMember_def objectMethods_def
                functionProtoMember_def functionMethods_def objectStatics_def)

lemma absent_facts:
  assumes "k \<in> set absentKeys"
  shows "objectProtoMember p k = None" "functionProtoMember k = None"
        "k \<notin> set objectStatics" "k \<noteq> ''name''" "k \<noteq> ''length''" "k \<noteq> ''prototype''"
  using absent_all [of p] assms unfolding list_all_iff by blast+

lemma absent_objectProto:
  "k \<in> set absentKeys \<Longrightarrow> objectProtoMember p k = None"
  by (rule absent_facts)

lemma absent_functionProto:
  "k \<in> set absentKeys \<Longrightarrow> functionProtoMember k = None"
  by (rule absent_facts)

lemma absent_builtinOwn:
  "k \<in> set absentKeys \<Longrightarrow> builtinOwn b k = None"
  by (cases b) (simp_all add: absent_facts)

lemma getBuiltinProp_absent:
  "k \<in> set absentKeys \<Longrightarrow> getBuiltinProp b k = Inr JUndefined"
  by (simp add: getBuiltinProp_def absent_builtinOwn absent_functionProto absent_objectProto)

lemma inheritedPrimitive_absent:
  "k \<in> set absentKeys \<Longrightarrow> inheritedPrimitive k = Inr JUndefined"
  by (simp add: inheritedPrimitive_def)

lemma getProp_obj_readObj: "getProp (JObj kvs) k = Inr (readObj kvs k)"
  by (simp add: readObj_def split: option.splits)

lemma getProp_present:
  assumes "present l" "k \<in> set absentKeys"
  shows "getProp l k = Inr (case getProp l k of Inr v \<Rightarrow> v | Inl e \<Rightarrow> JUndefined)"
proof (cases l)
  case (JObj kvs)
  then show ?thesis by (simp only: getProp_obj_readObj sum.case)
next
  case (JBuiltin b)
  then show ?thesis by (simp add: getBuiltinProp_absent [OF assms(2)])
qed (use assms in \<open>auto simp: present_def inheritedPrimitive_absent split: option.splits\<close>)

lemma code_absent [simp]: "LOCALE_CODE_KEY \<in> set absentKeys"
  by (simp add: LOCALE_CODE_KEY_def absentKeys_def)

lemma domain_absent [simp]: "LOCALE_DOMAIN_KEY \<in> set absentKeys"
  by (simp add: LOCALE_DOMAIN_KEY_def absentKeys_def)

lemma getProp_codeField: "present l \<Longrightarrow> getProp l LOCALE_CODE_KEY = Inr (codeField l)"
  unfolding codeField_def by (rule getProp_present) simp_all

text \<open>
  What a plain object inherits is neither \<^verbatim>\<open>false\<close> nor a string, so the tests of the
  page-options resolver see an inherited member as they see a missing entry.
\<close>

lemma objectProtoMember_cases:
  "objectProtoMember (JBuiltin ObjectProto) k = Some v \<Longrightarrow> \<exists>b. v = JBuiltin b"
  by (auto simp: objectProtoMember_def split: if_splits)

lemma objectProtoMember_keys:
  "objectProtoMember p k = None \<longleftrightarrow> k \<notin> set objectPrototypeKeys"
  by (auto simp: objectProtoMember_def objectPrototypeKeys_def)

lemma readObj_own: "map_of po k = Some v \<Longrightarrow> readObj po k = v"
  by (simp add: readObj_def)

lemma readObj_plain: "k \<notin> set objectPrototypeKeys \<Longrightarrow> readObj po k = entryOf po k"
  using objectProtoMember_keys [of "JBuiltin ObjectProto" k]
  by (simp add: readObj_def entryOf_def split: option.splits)

lemma readObj_cases: "readObj po k = entryOf po k \<or> (entryOf po k = JUndefined \<and> (\<exists>b. readObj po k = JBuiltin b))"
  by (auto simp: readObj_def entryOf_def split: option.splits dest: objectProtoMember_cases)

lemma readObj_false: "readObj po k = JBool False \<longleftrightarrow> entryOf po k = JBool False"
  using readObj_cases [of po k] by auto

lemma readObj_string: "typeof (readObj po k) = ''string'' \<longleftrightarrow> typeof (entryOf po k) = ''string''"
  using readObj_cases [of po k] by (auto split: if_splits)

lemma readObj_string_eq: "typeof (entryOf po k) = ''string'' \<Longrightarrow> readObj po k = entryOf po k"
  using readObj_cases [of po k] by auto

lemma getProp_obj:
  "k \<notin> set objectPrototypeKeys \<Longrightarrow> getProp (JObj kvs) k = Inr (entryOf kvs k)"
  by (simp add: getProp_obj_readObj readObj_plain del: getProp.simps)

lemma plain_keys [simp]:
  "''chunkName'' \<notin> set objectPrototypeKeys" "''name'' \<notin> set objectPrototypeKeys"
  "''path'' \<notin> set objectPrototypeKeys" "''host'' \<notin> set objectPrototypeKeys"
  "''x-forwarded-host'' \<notin> set objectPrototypeKeys" "''undefined'' \<notin> set objectPrototypeKeys"
  by (simp_all add: objectPrototypeKeys_def objectMethods_def)


lemma getLocaleCodes_nonempty:
  "getLocaleCodes (JArr (x # xs)) =
     (if typeof x = ''string'' then Inr (JArr (x # xs))
      else bindE (getProp x LOCALE_CODE_KEY) (\<lambda>c.
             if typeof c = ''string''
             then arrayMap (JArr (x # xs)) (\<lambda>locale. getProp locale LOCALE_CODE_KEY)
             else Inr (JArr [])))"
  by (simp add: getLocaleCodes_def)

section \<open>The locale-code extractor: claim C6\<close>




section \<open>The page-options resolver: claims C1, C3 and C10\<close>

lemma getPropV_obj: "toStringJS key = Inr k \<Longrightarrow> getPropV (JObj po) key = Inr (readObj po k)"
  by (simp add: getPropV_def getProp_obj_readObj del: getProp.simps)

lemma getPropV_obj_str: "getPropV (JObj po) (JStr k) = Inr (readObj po k)"
  by (rule getPropV_obj) simp

lemma getPropV_obj_plain:
  "toStringJS key = Inr k \<Longrightarrow> k \<notin> set objectPrototypeKeys \<Longrightarrow>
   getPropV (JObj po) key = Inr (entryOf po k)"
  by (simp add: getPropV_obj readObj_plain)

lemma getPropV_obj_own:
  "toStringJS key = Inr k \<Longrightarrow> map_of po k = Some v \<Longrightarrow> getPropV (JObj po) key = Inr v"
  by (simp add: getPropV_obj readObj_own)

lemma filterE_enabled:
  "filterE (\<lambda>locale. bindE (getPropV (JObj po) locale) (\<lambda>v. Inr (v \<noteq> JBool False))) (map JStr cs)
     = Inr (map JStr (enabledCodes po cs))"
  by (induction cs) (simp_all add: enabledCodes_def getPropV_obj_str readObj_false)

lemma setPath_str:
  "typeof p = ''string'' \<Longrightarrow> setPath (JStr c) p paths = Inr (putPath c p paths)"
  by (simp add: setPath_def putPath_def)

lemma customPath_string: "customPath po d c = Some p \<Longrightarrow> typeof p = ''string''"
  by (auto simp: customPath_def split: if_splits)

lemma pathStep_str:
  assumes "toStringJS dl = Inr d"
  shows "pathStep (JObj po) dl (JStr c) paths =
           Inr (case customPath po d c of Some p \<Rightarrow> putPath c p paths | None \<Rightarrow> paths)"
proof -
  have own: "getPropV (JObj po) (JStr c) = Inr (readObj po c)" by (rule getPropV_obj_str)
  have dv: "getPropV (JObj po) dl = Inr (readObj po d)" by (rule getPropV_obj [OF assms])
  show ?thesis
  proof (cases "typeof (entryOf po c) = ''string''")
    case True
    then show ?thesis
      by (simp add: pathStep_def own readObj_string readObj_string_eq customPath_def setPath_str)
  next
    case False
    show ?thesis
    proof (cases "typeof (entryOf po d) = ''string''")
      case True
      with False show ?thesis
        by (simp add: pathStep_def own dv readObj_string readObj_string_eq customPath_def setPath_str)
    next
      case f: False
      with False show ?thesis
        by (simp add: pathStep_def own dv readObj_string customPath_def)
    qed
  qed
qed

lemma forEachPath_strs_gen:
  assumes "toStringJS dl = Inr d"
  shows "\<exists>paths. forEachPath (JObj po) dl (map JStr ks) acc = Inr paths \<and>
           (\<forall>c. map_of paths c =
                  (if c \<in> set ks \<and> c \<noteq> ''__proto__'' \<and> customPath po d c \<noteq> None
                   then customPath po d c else map_of acc c))"
proof (induction ks arbitrary: acc)
  case Nil
  then show ?case by simp
next
  case (Cons k ks)
  let ?acc' = "case customPath po d k of Some p \<Rightarrow> putPath k p acc | None \<Rightarrow> acc"
  obtain paths where p: "forEachPath (JObj po) dl (map JStr ks) ?acc' = Inr paths"
    and m: "\<forall>c. map_of paths c =
              (if c \<in> set ks \<and> c \<noteq> ''__proto__'' \<and> customPath po d c \<noteq> None
               then customPath po d c else map_of ?acc' c)"
    using Cons.IH [of ?acc'] by blast
  have "forEachPath (JObj po) dl (map JStr (k # ks)) acc = Inr paths"
    using p by (simp add: pathStep_str [OF assms])
  moreover have "\<forall>c. map_of paths c =
      (if c \<in> set (k # ks) \<and> c \<noteq> ''__proto__'' \<and> customPath po d c \<noteq> None
       then customPath po d c else map_of acc c)"
    using m by (auto simp: putPath_def update_conv' split: option.splits)
  ultimately show ?case by blast
qed

lemma forEachPath_strs:
  assumes "toStringJS dl = Inr d"
  shows "\<exists>paths. forEachPath (JObj po) dl (map JStr ks) [] = Inr paths \<and>
           (\<forall>c. map_of paths c =
                  (if c \<in> set ks \<and> c \<noteq> ''__proto__'' then customPath po d c else None))"
proof -
  obtain paths where p: "forEachPath (JObj po) dl (map JStr ks) [] = Inr paths"
    and m: "\<forall>c. map_of paths c =
              (if c \<in> set ks \<and> c \<noteq> ''__proto__'' \<and> customPath po d c \<noteq> None
               then customPath po d c else map_of [] c)"
    using forEachPath_strs_gen [OF assms, of po ks "[]"] by blast
  have "\<forall>c. map_of paths c =
          (if c \<in> set ks \<and> c \<noteq> ''__proto__'' then customPath po d c else None)"
    using m by auto
  with p show ?thesis by blast
qed

lemma getPageOptions_object:
  assumes codes: "getLocaleCodes locales = Inr (JArr (map JStr cs))"
      and key: "chunkNameOf route pagesDir = Inr key"
      and entry: "getPropV pages key = Inr (JObj po)"
      and dflt: "toStringJS defaultLocale = Inr d"
  shows "\<exists>paths. getPageOptions route pages locales pagesDir defaultLocale
                    = Inr (mkOptions (JArr (map JStr (enabledCodes po cs))) paths) \<and>
                  (\<forall>c. map_of paths c =
                         (if c \<in> set (enabledCodes po cs) \<and> c \<noteq> ''__proto__''
                          then customPath po d c else None))"
proof -
  obtain paths where p: "forEachPath (JObj po) defaultLocale (map JStr (enabledCodes po cs)) [] = Inr paths"
    and m: "\<forall>c. map_of paths c =
              (if c \<in> set (enabledCodes po cs) \<and> c \<noteq> ''__proto__''
               then customPath po d c else None)"
    using forEachPath_strs [OF dflt] by blast
  have "getPageOptions route pages locales pagesDir defaultLocale
          = Inr (mkOptions (JArr (map JStr (enabledCodes po cs))) paths)"
    using codes key entry p by (simp add: getPageOptions_def arrayFilter_def filterE_enabled)
  with m show ?thesis by blast
qed

text \<open>
  C1 (as the specification states it). When the page's entry is an object, every
  remaining locale whose own entry is not a string is said to get the default locale's
  entry as its path when that is a string. A locale of code \<^verbatim>\<open>__proto__\<close> does not:
  \<^verbatim>\<open>options.paths['__proto__'] = path\<close> runs the setter that the paths object inherits
  and adds no property. For the pages \<^verbatim>\<open>{about: {en: "/x"}}\<close>, the default locale
  \<^verbatim>\<open>en\<close> and the locales \<^verbatim>\<open>["en", "__proto__"]\<close>, the locale \<^verbatim>\<open>__proto__\<close> remains
  (what the entry inherits under that name is not \<^verbatim>\<open>false\<close>) and has no path.
\<close>

theorem getPageOptions_object_entry_counterexample:
  "getPageOptions (JObj [(''name'', JStr ''about'')])
     (JObj [(''about'', JObj [(''en'', JStr ''/x'')])])
     (JArr [JStr ''en'', JStr ''__proto__'']) (JStr ''pages'') (JStr ''en'')
   = Inr (JObj [(''locales'', JArr [JStr ''en'', JStr ''__proto__'']),
                (''paths'', JObj [(''en'', JStr ''/x'')])])"
  by code_simp

text \<open>
  C1 (amended). When the page's entry is an object, \<^verbatim>\<open>getPageOptions\<close> returns the
  extracted codes without those whose entry is exactly \<^verbatim>\<open>false\<close>, and a paths object
  where each remaining locale other than \<^verbatim>\<open>__proto__\<close> has its own entry if that is a
  string, else the default locale's entry if that is a string, else no entry; a locale
  of code \<^verbatim>\<open>__proto__\<close> has no path. The entries are the own properties of the page's
  object. The codes are strings, as the locale-code extractor gives them for a list of
  strings or of records. For the pages \<^verbatim>\<open>{about: {en: "/about-us", fr: false}}\<close>, the
  default locale \<^verbatim>\<open>en\<close> and the locales \<^verbatim>\<open>["en", "fr"]\<close> the result is
  \<^verbatim>\<open>{locales: ["en"], paths: {en: "/about-us"}}\<close>, for a route named \<^verbatim>\<open>about\<close> and
  for a route of chunk name \<^verbatim>\<open>Pages/about\<close>.
\<close>

theorem getPageOptions_object_entry:
  assumes "getLocaleCodes locales = Inr (JArr (map JStr cs))"
      and "chunkNameOf route pagesDir = Inr key"
      and "getPropV pages key = Inr (JObj po)"
      and "toStringJS defaultLocale = Inr d"
  shows "(\<exists>paths. getPageOptions route pages locales pagesDir defaultLocale
                    = Inr (mkOptions (JArr (map JStr (enabledCodes po cs))) paths) \<and>
                  (\<forall>c. map_of paths c =
                         (if c \<in> set (enabledCodes po cs) \<and> c \<noteq> ''__proto__''
                          then customPath po d c else None))) \<and>
         getPageOptions (JObj [(''name'', JStr ''about'')])
           (JObj [(''about'', JObj [(''en'', JStr ''/about-us''), (''fr'', JBool False)])])
           (JArr [JStr ''en'', JStr ''fr'']) (JStr ''pages'') (JStr ''en'')
           = Inr (JObj [(''locales'', JArr [JStr ''en'']),
                        (''paths'', JObj [(''en'', JStr ''/about-us'')])]) \<and>
         getPageOptions (JObj [(''chunkName'', JStr ''Pages/about''), (''name'', JStr ''x'')])
           (JObj [(''about'', JObj [(''en'', JStr ''/about-us''), (''fr'', JBool False)])])
           (JArr [JStr ''en'', JStr ''fr'']) (JStr ''pages'') (JStr ''en'')
           = Inr (JObj [(''locales'', JArr [JStr ''en'']),
                        (''paths'', JObj [(''en'', JStr ''/about-us'')])])"
proof (intro conjI)
  show "\<exists>paths. getPageOptions route pages locales pagesDir defaultLocale
                    = Inr (mkOptions (JArr (map JStr (enabledCodes po cs))) paths) \<and>
                  (\<forall>c. map_of paths c =
                         (if c \<in> set (enabledCodes po cs) \<and> c \<noteq> ''__proto__''
                          then customPath po d c else None))"
    by (rule getPageOptions_object [OF assms])
  show "getPageOptions (JObj [(''name'', JStr ''about'')])
           (JObj [(''about'', JObj [(''en'', JStr ''/about-us''), (''fr'', JBool False)])])
           (JArr [JStr ''en'', JStr ''fr'']) (JStr ''pages'') (JStr ''en'')
           = Inr (JObj [(''locales'', JArr [JStr ''en'']),
                        (''paths'', JObj [(''en'', JStr ''/about-us'')])])"
    by code_simp
  show "getPageOptions (JObj [(''chunkName'', JStr ''Pages/about''), (''name'', JStr ''x'')])
           (JObj [(''about'', JObj [(''en'', JStr ''/about-us''), (''fr'', JBool False)])])
           (JArr [JStr ''en'', JStr ''fr'']) (JStr ''pages'') (JStr ''en'')
           = Inr (JObj [(''locales'', JArr [JStr ''en'']),
                        (''paths'', JObj [(''en'', JStr ''/about-us'')])])"
    by code_simp
qed

lemma chunkNameOf_about:
  "chunkNameOf (JObj [(''name'', JStr ''about'')]) (JStr ''pages'') = Inr (JStr ''about'')"
  by code_simp

lemma getLocaleCodes_en_fr:
  "getLocaleCodes (JArr [JStr ''en'', JStr ''fr'']) = Inr (JArr (map JStr [''en'', ''fr'']))"
  by (simp add: getLocaleCodes_nonempty)

lemma getPropV_about: "getPropV (JObj [(''about'', v)]) (JStr ''about'') = Inr v"
  by (rule getPropV_obj_own [where k = "''about''"]) simp_all

theorem getPageOptions_object_entry_witness:
  "\<exists>paths. getPageOptions (JObj [(''name'', JStr ''about'')])
              (JObj [(''about'', JObj [(''en'', JStr ''/about-us''), (''fr'', JBool False)])])
              (JArr [JStr ''en'', JStr ''fr'']) (JStr ''pages'') (JStr ''en'')
            = Inr (mkOptions (JArr [JStr ''en'']) paths) \<and>
           map_of paths ''en'' = Some (JStr ''/about-us'') \<and> map_of paths ''fr'' = None"
proof -
  let ?po = "[(''en'', JStr ''/about-us''), (''fr'', JBool False)]"
  have e: "getPropV (JObj [(''about'', JObj ?po)]) (JStr ''about'') = Inr (JObj ?po)"
    by (rule getPropV_about)
  have d: "toStringJS (JStr ''en'') = Inr ''en''" by simp
  have en: "enabledCodes ?po [''en'', ''fr''] = [''en'']"
    by (simp add: enabledCodes_def entryOf_def)
  from getPageOptions_object_entry [OF getLocaleCodes_en_fr chunkNameOf_about e d, THEN conjunct1]
  obtain paths where
    r: "getPageOptions (JObj [(''name'', JStr ''about'')]) (JObj [(''about'', JObj ?po)])
          (JArr [JStr ''en'', JStr ''fr'']) (JStr ''pages'') (JStr ''en'')
        = Inr (mkOptions (JArr (map JStr (enabledCodes ?po [''en'', ''fr'']))) paths)"
    and m: "\<forall>c. map_of paths c =
              (if c \<in> set (enabledCodes ?po [''en'', ''fr'']) \<and> c \<noteq> ''__proto__''
               then customPath ?po ''en'' c else None)"
    by auto
  have "map_of paths ''en'' = Some (JStr ''/about-us'')"
    using m en by (simp add: customPath_def entryOf_def)
  moreover have "map_of paths ''fr'' = None"
    using m en by simp
  ultimately show ?thesis using r en by auto
qed

text \<open>
  C3 (as the specification states it). When the default locale's own entry is exactly
  \<^verbatim>\<open>false\<close>, the remaining locales whose entry is not a string are said to receive the
  default locale's custom path. They do not: for the pages \<^verbatim>\<open>{about: {en: false}}\<close>,
  the default locale \<^verbatim>\<open>en\<close> and the locales \<^verbatim>\<open>["en", "fr"]\<close>, the locale \<^verbatim>\<open>fr\<close>
  remains and has no path.
\<close>

theorem getPageOptions_default_disabled_counterexample:
  "getPageOptions (JObj [(''name'', JStr ''about'')])
     (JObj [(''about'', JObj [(''en'', JBool False)])])
     (JArr [JStr ''en'', JStr ''fr'']) (JStr ''pages'') (JStr ''en'')
   = Inr (JObj [(''locales'', JArr [JStr ''fr'']), (''paths'', JObj [])])"
  by code_simp

text \<open>
  C3 (amended). When the default locale's own entry is exactly \<^verbatim>\<open>false\<close>, the default
  locale is removed from the result and there is no fallback: the default locale's entry
  is \<^verbatim>\<open>false\<close>, not a string, so a remaining locale has a path exactly when its own
  entry is a string (and its code is not \<^verbatim>\<open>__proto__\<close>, under which no path can be
  stored), and that path is its own entry.
\<close>

theorem getPageOptions_default_disabled:
  assumes "getLocaleCodes locales = Inr (JArr (map JStr cs))"
      and "chunkNameOf route pagesDir = Inr key"
      and "getPropV pages key = Inr (JObj po)"
      and "toStringJS defaultLocale = Inr d"
      and "entryOf po d = JBool False"
  shows "\<exists>paths. getPageOptions route pages locales pagesDir defaultLocale
                    = Inr (mkOptions (JArr (map JStr (enabledCodes po cs))) paths) \<and>
                  d \<notin> set (enabledCodes po cs) \<and>
                  (\<forall>c. map_of paths c =
                         (if c \<in> set (enabledCodes po cs) \<and> c \<noteq> ''__proto__'' \<and>
                             typeof (entryOf po c) = ''string''
                          then Some (entryOf po c) else None))"
proof -
  obtain paths where
    r: "getPageOptions route pages locales pagesDir defaultLocale
          = Inr (mkOptions (JArr (map JStr (enabledCodes po cs))) paths)"
    and m: "\<forall>c. map_of paths c =
              (if c \<in> set (enabledCodes po cs) \<and> c \<noteq> ''__proto__''
               then customPath po d c else None)"
    using getPageOptions_object [OF assms(1-4)] by auto
  have nd: "d \<notin> set (enabledCodes po cs)"
    using assms(5) by (simp add: enabledCodes_def)
  have cp: "customPath po d c =
              (if typeof (entryOf po c) = ''string'' then Some (entryOf po c) else None)" for c
    using assms(5) by (simp add: customPath_def)
  have "\<forall>c. map_of paths c =
          (if c \<in> set (enabledCodes po cs) \<and> c \<noteq> ''__proto__'' \<and>
              typeof (entryOf po c) = ''string''
           then Some (entryOf po c) else None)"
    using m cp by simp
  with r nd show ?thesis by auto
qed

theorem getPageOptions_default_disabled_witness:
  "\<exists>paths. getPageOptions (JObj [(''name'', JStr ''about'')])
              (JObj [(''about'', JObj [(''en'', JBool False), (''fr'', JStr ''/a-propos'')])])
              (JArr [JStr ''en'', JStr ''fr'', JStr ''de'']) (JStr ''pages'') (JStr ''en'')
            = Inr (mkOptions (JArr [JStr ''fr'', JStr ''de'']) paths) \<and>
           map_of paths ''fr'' = Some (JStr ''/a-propos'') \<and> map_of paths ''de'' = None"
proof -
  let ?po = "[(''en'', JBool False), (''fr'', JStr ''/a-propos'')]"
  have c: "getLocaleCodes (JArr [JStr ''en'', JStr ''fr'', JStr ''de''])
             = Inr (JArr (map JStr [''en'', ''fr'', ''de'']))"
    by (simp add: getLocaleCodes_nonempty)
  have e: "getPropV (JObj [(''about'', JObj ?po)]) (JStr ''about'') = Inr (JObj ?po)"
    by (rule getPropV_about)
  have d: "toStringJS (JStr ''en'') = Inr ''en''" by simp
  have f: "entryOf ?po ''en'' = JBool False" by (simp add: entryOf_def)
  have en: "enabledCodes ?po [''en'', ''fr'', ''de''] = [''fr'', ''de'']"
    by (simp add: enabledCodes_def entryOf_def)
  from getPageOptions_default_disabled [OF c chunkNameOf_about e d f]
  obtain paths where
    r: "getPageOptions (JObj [(''name'', JStr ''about'')]) (JObj [(''about'', JObj ?po)])
          (JArr [JStr ''en'', JStr ''fr'', JStr ''de'']) (JStr ''pages'') (JStr ''en'')
        = Inr (mkOptions (JArr (map JStr (enabledCodes ?po [''en'', ''fr'', ''de'']))) paths)"
    and m: "\<forall>c. map_of paths c =
              (if c \<in> set (enabledCodes ?po [''en'', ''fr'', ''de'']) \<and> c \<noteq> ''__proto__'' \<and>
                  typeof (entryOf ?po c) = ''string''
               then Some (entryOf ?po c) else None)"
    by auto
  have "map_of paths ''fr'' = Some (JStr ''/a-propos'')"
    using m en by (simp add: entryOf_def)
  moreover have "map_of paths ''de'' = None"
    using m en by (simp add: entryOf_def)
  ultimately show ?thesis using r en by auto
qed

lemma filterE_subseq: "filterE p xs = Inr ys \<Longrightarrow> subseq ys xs"
proof (induction xs arbitrary: ys)
  case Nil
  then show ?case by simp
next
  case (Cons x xs)
  then show ?case
    by (auto split: sum.splits if_splits)
qed

lemma setPath_keys:
  assumes "setPath l v paths = Inr paths'"
  shows "fst ` set paths' \<subseteq> fst ` set paths \<union> {k. toStringJS l = Inr k}"
proof -
  from assms obtain k where k: "toStringJS l = Inr k"
    and p: "paths' = paths \<or> paths' = AList.update k v paths"
    unfolding setPath_def by (cases "toStringJS l") (auto split: if_splits)
  have "fst ` set (AList.update k v paths) = {k} \<union> fst ` set paths"
    by (rule dom_update)
  with k p show ?thesis by auto
qed

lemma pathStep_keys:
  assumes "pathStep po dl l paths = Inr paths'"
  shows "fst ` set paths' \<subseteq> fst ` set paths \<union> {k. toStringJS l = Inr k}"
proof -
  from assms obtain own where o: "getPropV po l = Inr own"
    and r: "(if typeof own = ''string'' then setPath l own paths
             else bindE (getPropV po dl) (\<lambda>dflt.
                    if typeof dflt = ''string'' then setPath l dflt paths else Inr paths)) = Inr paths'"
    unfolding pathStep_def by (cases "getPropV po l") simp_all
  show ?thesis
  proof (cases "typeof own = ''string''")
    case True
    with r have "setPath l own paths = Inr paths'" by simp
    then show ?thesis by (rule setPath_keys)
  next
    case False
    with r obtain dflt where d: "getPropV po dl = Inr dflt"
      and r2: "(if typeof dflt = ''string'' then setPath l dflt paths else Inr paths) = Inr paths'"
      by (cases "getPropV po dl") simp_all
    show ?thesis
    proof (cases "typeof dflt = ''string''")
      case True
      with r2 have "setPath l dflt paths = Inr paths'" by simp
      then show ?thesis by (rule setPath_keys)
    next
      case False
      with r2 have "paths' = paths" by simp
      then show ?thesis by simp
    qed
  qed
qed

lemma forEachPath_keys:
  "forEachPath po dl ls acc = Inr paths \<Longrightarrow>
   fst ` set paths \<subseteq> fst ` set acc \<union> {k. \<exists>l\<in>set ls. toStringJS l = Inr k}"
proof (induction ls arbitrary: acc)
  case Nil
  then show ?case by simp
next
  case (Cons l ls)
  from Cons.prems obtain acc' where s: "pathStep po dl l acc = Inr acc'"
    and r: "forEachPath po dl ls acc' = Inr paths"
    by (cases "pathStep po dl l acc") simp_all
  have a: "fst ` set acc' \<subseteq> fst ` set acc \<union> {k. toStringJS l = Inr k}"
    by (rule pathStep_keys [OF s])
  have b: "fst ` set paths \<subseteq> fst ` set acc' \<union> {k. \<exists>l\<in>set ls. toStringJS l = Inr k}"
    by (rule Cons.IH [OF r])
  show ?case
  proof
    fix k assume k: "k \<in> fst ` set paths"
    show "k \<in> fst ` set acc \<union> {k. \<exists>x\<in>set (l # ls). toStringJS x = Inr k}"
    proof (cases "k \<in> fst ` set acc'")
      case True
      with a have "k \<in> fst ` set acc \<or> toStringJS l = Inr k" by auto
      then show ?thesis by auto
    next
      case False
      with b k have "\<exists>x\<in>set ls. toStringJS x = Inr k" by auto
      then show ?thesis by auto
    qed
  qed
qed


lemma subseq_member: "subseq ys xs \<Longrightarrow> y \<in> set ys \<Longrightarrow> y \<in> set xs"
  using list_emb_set [of "(=)" ys xs y] by auto


text \<open>
  C10. Whenever \<^verbatim>\<open>getPageOptions\<close> returns an object, that object has the fields
  \<^verbatim>\<open>locales\<close> and \<^verbatim>\<open>paths\<close>; its locales are a subsequence, in order, of the codes
  that \<^verbatim>\<open>getLocaleCodes\<close> extracts, and every key of its paths is the property key of
  one of its locales (the locale itself when the codes are strings).
\<close>

theorem getPageOptions_invariant:
  assumes codes: "getLocaleCodes locales = Inr (JArr codes)"
      and res: "getPageOptions route pages locales pagesDir defaultLocale = Inr (JObj res)"
  shows "\<exists>ls ps. res = [(''locales'', JArr ls), (''paths'', JObj ps)] \<and>
                 subseq ls codes \<and>
                 (\<forall>k\<in>fst ` set ps. \<exists>l\<in>set ls. toStringJS l = Inr k) \<and>
                 ((\<forall>c\<in>set codes. typeof c = ''string'') \<longrightarrow> (\<forall>k\<in>fst ` set ps. JStr k \<in> set ls))"
proof -
  let ?body = "\<lambda>po. if po = JBool False then Inr (JBool False)
            else if \<not> truthy po then Inr (mkOptions (JArr codes) [])
            else bindE (arrayFilter (JArr codes) (\<lambda>locale.
                    bindE (getPropV po locale) (\<lambda>v. Inr (v \<noteq> JBool False)))) (\<lambda>kept.
                  case kept of
                    JArr ls \<Rightarrow> bindE (forEachPath po defaultLocale ls [])
                                     (\<lambda>paths. Inr (mkOptions kept paths))
                  | _ \<Rightarrow> Inl TypeError)"
  from res codes obtain key where key: "chunkNameOf route pagesDir = Inr key"
    and r1: "bindE (getPropV pages key) ?body = Inr (JObj res)"
    unfolding getPageOptions_def by (cases "chunkNameOf route pagesDir") simp_all
  from r1 obtain po where body: "?body po = Inr (JObj res)"
    by (cases "getPropV pages key") simp_all
  show ?thesis
  proof (cases "po = JBool False \<or> \<not> truthy po")
    case True
    with body have "res = [(''locales'', JArr codes), (''paths'', JObj [])]"
      by (auto simp: mkOptions_def split: if_splits)
    then show ?thesis by simp
  next
    case False
    let ?p = "\<lambda>locale. bindE (getPropV po locale) (\<lambda>v. Inr (v \<noteq> JBool False))"
    from False body have b2: "bindE (arrayFilter (JArr codes) ?p) (\<lambda>kept.
                  case kept of
                    JArr ls \<Rightarrow> bindE (forEachPath po defaultLocale ls [])
                                     (\<lambda>paths. Inr (mkOptions kept paths))
                  | _ \<Rightarrow> Inl TypeError) = Inr (JObj res)"
      by simp
    then obtain ls where f: "filterE ?p codes = Inr ls"
      and b3: "bindE (forEachPath po defaultLocale ls []) (\<lambda>paths. Inr (mkOptions (JArr ls) paths))
                 = Inr (JObj res)"
      unfolding arrayFilter_def by (cases "filterE ?p codes") simp_all
    from b3 obtain ps where p: "forEachPath po defaultLocale ls [] = Inr ps"
      and r: "res = [(''locales'', JArr ls), (''paths'', JObj ps)]"
      by (cases "forEachPath po defaultLocale ls []") (simp_all add: mkOptions_def)
    have sub: "subseq ls codes" by (rule filterE_subseq [OF f])
    have keys: "\<forall>k\<in>fst ` set ps. \<exists>l\<in>set ls. toStringJS l = Inr k"
      using forEachPath_keys [OF p] by auto
    have strs: "(\<forall>c\<in>set codes. typeof c = ''string'') \<longrightarrow> (\<forall>k\<in>fst ` set ps. JStr k \<in> set ls)"
    proof (intro impI ballI)
      fix k assume a: "\<forall>c\<in>set codes. typeof c = ''string''" and k: "k \<in> fst ` set ps"
      from keys k obtain l where l: "l \<in> set ls" "toStringJS l = Inr k" by auto
      from sub l(1) have "l \<in> set codes" by (rule subseq_member)
      with a obtain s where "l = JStr s" by (auto simp: typeof_string_iff)
      with l show "JStr k \<in> set ls" by simp
    qed
    from r sub keys strs show ?thesis by simp
  qed
qed


theorem getPageOptions_invariant_witness:
  "\<exists>ls ps. [(''locales'', JArr [JStr ''en'']), (''paths'', JObj [(''en'', JStr ''/about-us'')])]
             = [(''locales'', JArr ls), (''paths'', JObj ps)] \<and>
           subseq ls [JStr ''en'', JStr ''fr''] \<and>
           fst ` set ps = {''en''} \<and> JStr ''en'' \<in> set ls"
proof -
  have c: "getLocaleCodes (JArr [JStr ''en'', JStr ''fr'']) = Inr (JArr [JStr ''en'', JStr ''fr''])"
    by (simp add: getLocaleCodes_nonempty)
  have r: "getPageOptions (JObj [(''name'', JStr ''about'')])
             (JObj [(''about'', JObj [(''en'', JStr ''/about-us''), (''fr'', JBool False)])])
             (JArr [JStr ''en'', JStr ''fr'']) (JStr ''pages'') (JStr ''en'')
           = Inr (JObj [(''locales'', JArr [JStr ''en'']),
                        (''paths'', JObj [(''en'', JStr ''/about-us'')])])"
    by code_simp
  from getPageOptions_invariant [OF c r] obtain ls ps where
    e: "[(''locales'', JArr [JStr ''en'']), (''paths'', JObj [(''en'', JStr ''/about-us'')])]
          = [(''locales'', JArr ls), (''paths'', JObj ps)]"
    and s: "subseq ls [JStr ''en'', JStr ''fr'']"
    by auto
  from e have "ls = [JStr ''en'']" "ps = [(''en'', JStr ''/about-us'')]" by simp_all
  with e s show ?thesis by simp
qed

section \<open>The route-locale extractor: claims C4 and C5\<close>

subsection \<open>Parsing a source built from literal strings\<close>

lemma literal_char:
  assumes "c \<notin> set syntaxChars"
  shows "parseRE stk alts cur n (c # cs) = parseRE stk alts (cur @ [RChar c]) n cs"
  using assms by (simp add: parseRE.simps(2) syntaxChars_def)

lemma parse_literal:
  "regexLiteral s \<Longrightarrow> parseRE stk alts cur n (s @ rest) = parseRE stk alts (cur @ lit s) n rest"
proof (induction s arbitrary: cur)
  case Nil
  then show ?case by (simp add: lit_def)
next
  case (Cons c s)
  then have c: "c \<notin> set syntaxChars" and s: "regexLiteral s"
    by (simp_all add: regexLiteral_def)
  show ?case
    using Cons.IH [OF s, of "cur @ [RChar c]"] by (simp add: literal_char [OF c] lit_def)
qed

lemma parse_bar:
  "parseRE stk alts cur n (CHR ''|'' # cs) = parseRE stk (alts @ [mkSeq cur]) [] n cs"
  by (simp add: parseRE.simps(2))

lemma parse_close:
  "parseRE ((k, palts, pcur) # stk) alts cur n (CHR '')'' # cs) =
     parseRE stk palts (pcur @ [mkGroup k (mkDisj (alts @ [mkSeq cur]))]) n cs"
  by (simp add: parseRE.simps(2))

lemma parse_open_cap:
  "take 1 cs \<noteq> ''?'' \<Longrightarrow>
   parseRE stk alts cur n (CHR ''('' # cs) = parseRE ((Some (Suc n), alts, cur) # stk) [] [] (Suc n) cs"
  by (simp add: parseRE.simps(2))

lemma parse_open_noncap:
  "parseRE stk alts cur n (''(?:'' @ cs) = parseRE ((None, alts, cur) # stk) [] [] n cs"
  by (simp add: parseRE.simps(2))

lemma parse_opt_group:
  "parseRE stk alts (cur @ [RNonCap r]) n (CHR ''?'' # cs) = parseRE stk alts (cur @ [ROpt (RNonCap r)]) n cs"
  by (simp add: parseRE.simps(2) quantify_def)

lemma parse_eol:
  "parseRE stk alts cur n (CHR ''$'' # cs) = parseRE stk alts (cur @ [REol]) n cs"
  by (simp add: parseRE.simps(2))

lemma parse_bol:
  "parseRE stk alts cur n (CHR ''^'' # cs) = parseRE stk alts (cur @ [RBol]) n cs"
  by (simp add: parseRE.simps(2))

lemma parse_slash:
  "parseRE stk alts cur n (CHR ''/'' # cs) = parseRE stk alts (cur @ [RChar CHR ''/'']) n cs"
  by (simp add: parseRE.simps(2) syntaxChars_def)

lemma parse_alternatives:
  assumes "\<forall>c\<in>set (c0 # cs). regexLiteral c"
  shows "parseRE ((k, palts, pcur) # stk) alts [] n (intercalate ''|'' (c0 # cs) @ CHR '')'' # rest) =
         parseRE stk palts (pcur @ [mkGroup k (mkDisj (alts @ map (\<lambda>c. mkSeq (lit c)) (c0 # cs)))]) n rest"
  using assms
proof (induction cs arbitrary: c0 alts)
  case Nil
  then have "regexLiteral c0" by simp
  then show ?case
    by (simp add: parse_literal parse_close)
next
  case (Cons c cs)
  then have c0: "regexLiteral c0" and r: "\<forall>x\<in>set (c # cs). regexLiteral x" by simp_all
  have "parseRE ((k, palts, pcur) # stk) alts [] n (intercalate ''|'' (c0 # c # cs) @ CHR '')'' # rest)
        = parseRE ((k, palts, pcur) # stk) alts [] n (c0 @ (CHR ''|'' # intercalate ''|'' (c # cs) @ CHR '')'' # rest))"
    by simp
  also have "\<dots> = parseRE ((k, palts, pcur) # stk) (alts @ [mkSeq (lit c0)]) [] n
                     (intercalate ''|'' (c # cs) @ CHR '')'' # rest)"
    by (simp add: parse_literal [OF c0] parse_bar)
  also have "\<dots> = parseRE stk palts
        (pcur @ [mkGroup k (mkDisj ((alts @ [mkSeq (lit c0)]) @ map (\<lambda>c. mkSeq (lit c)) (c # cs)))]) n rest"
    by (rule Cons.IH [OF r])
  finally show ?case by simp
qed

lemma parse_group_body:
  assumes "\<forall>c\<in>set cs. regexLiteral c"
  shows "parseRE ((k, palts, pcur) # stk) [] [] n (intercalate ''|'' cs @ CHR '')'' # rest) =
         parseRE stk palts (pcur @ [mkGroup k (altCodes cs)]) n rest"
proof (cases cs)
  case Nil
  then show ?thesis by (simp add: parse_close altCodes_def codesOr_def lit_def)
next
  case (Cons c0 cs')
  with assms have "\<forall>c\<in>set (c0 # cs'). regexLiteral c" by simp
  from parse_alternatives [OF this, of k palts pcur stk "[]" n rest] Cons
  show ?thesis by (simp add: altCodes_def codesOr_def)
qed

lemma join_not_question:
  assumes "\<forall>c\<in>set cs. regexLiteral c"
  shows "take 1 (intercalate ''|'' cs @ CHR '')'' # rest) \<noteq> ''?''"
proof (cases cs)
  case Nil
  then show ?thesis by simp
next
  case (Cons c0 cs')
  show ?thesis
  proof (cases c0)
    case Nil
    with Cons show ?thesis by (cases cs') simp_all
  next
    case (Cons x xs)
    with assms \<open>cs = c0 # cs'\<close> have "x \<notin> set syntaxChars" by (simp add: regexLiteral_def)
    then have "x \<noteq> CHR ''?''" by (auto simp: syntaxChars_def)
    with Cons \<open>cs = c0 # cs'\<close> show ?thesis by (cases cs') simp_all
  qed
qed

lemma parse_group:
  assumes "\<forall>c\<in>set cs. regexLiteral c"
  shows "parseRE stk alts cur n (''('' @ intercalate ''|'' cs @ '')'' @ rest) =
         parseRE stk alts (cur @ [RCap (Suc n) (altCodes cs)]) (Suc n) rest"
proof -
  have "parseRE stk alts cur n (''('' @ intercalate ''|'' cs @ '')'' @ rest)
        = parseRE ((Some (Suc n), alts, cur) # stk) [] [] (Suc n) (intercalate ''|'' cs @ CHR '')'' # rest)"
    using parse_open_cap [OF join_not_question [OF assms, of rest], of stk alts cur n] by simp
  also have "\<dots> = parseRE stk alts (cur @ [mkGroup (Some (Suc n)) (altCodes cs)]) (Suc n) rest"
    by (rule parse_group_body [OF assms])
  finally show ?thesis by (simp add: mkGroup_def)
qed

lemma newRegExp_name:
  assumes sep: "regexLiteral sep" and suf: "regexLiteral sfx"
      and cs: "\<forall>c\<in>set cs. regexLiteral c"
  shows "newRegExp (sep @ (''('' @ intercalate ''|'' cs @ '')'') @ (''(?:'' @ sep @ sfx @ '')?'') @ ''$'')
           = Inr (nameRegex sep sfx cs, 1)"
proof -
  have ss: "regexLiteral (sep @ sfx)" using sep suf by (simp add: regexLiteral_def)
  have "newRegExp (sep @ (''('' @ intercalate ''|'' cs @ '')'') @ (''(?:'' @ sep @ sfx @ '')?'') @ ''$'')
        = parseRE [] [] (lit sep) 0 (''('' @ intercalate ''|'' cs @ '')'' @ (''(?:'' @ (sep @ sfx) @ '')?$''))"
    unfolding newRegExp_def using parse_literal [OF sep, of "[]" "[]" "[]" 0] by simp
  also have "\<dots> = parseRE [] [] (lit sep @ [RCap 1 (altCodes cs)]) 1 (''(?:'' @ (sep @ sfx) @ '')?$'')"
    using parse_group [OF cs, of "[]" "[]" "lit sep" 0] by simp
  also have "\<dots> = parseRE [(None, [], lit sep @ [RCap 1 (altCodes cs)])] [] [] 1 ((sep @ sfx) @ '')?$'')"
    by (rule parse_open_noncap)
  also have "\<dots> = parseRE [(None, [], lit sep @ [RCap 1 (altCodes cs)])] [] (lit (sep @ sfx)) 1 '')?$''"
    using parse_literal [OF ss, of _ "[]" "[]"] by simp
  also have "\<dots> = parseRE [] [] ((lit sep @ [RCap 1 (altCodes cs)]) @ [RNonCap (mkSeq (lit (sep @ sfx)))]) 1 ''?$''"
    by (simp add: parse_close mkGroup_def)
  also have "\<dots> = parseRE [] [] ((lit sep @ [RCap 1 (altCodes cs)]) @ [ROpt (RNonCap (mkSeq (lit (sep @ sfx))))]) 1 ''$''"
    by (simp only: parse_opt_group)
  also have "\<dots> = Inr (nameRegex sep sfx cs, 1)"
    by (simp add: parse_eol nameRegex_def)
  finally show ?thesis .
qed

lemma newRegExp_path:
  assumes cs: "\<forall>c\<in>set cs. regexLiteral c"
  shows "newRegExp (''^/'' @ (''('' @ intercalate ''|'' cs @ '')'') @ ''/'') = Inr (pathRegex cs, 1)"
proof -
  have "newRegExp (''^/'' @ (''('' @ intercalate ''|'' cs @ '')'') @ ''/'')
        = parseRE [] [] [RBol, RChar CHR ''/''] 0 (''('' @ intercalate ''|'' cs @ '')'' @ ''/'')"
    unfolding newRegExp_def by (simp add: parse_bol parse_slash)
  also have "\<dots> = parseRE [] [] ([RBol, RChar CHR ''/''] @ [RCap 1 (altCodes cs)]) 1 ''/''"
    using parse_group [OF cs, of "[]" "[]" _ 0] by simp
  also have "\<dots> = Inr (pathRegex cs, 1)"
    by (simp add: parse_slash pathRegex_def)
  finally show ?thesis .
qed



subsection \<open>The matcher on these patterns\<close>

lemma ciAt_Nil [simp]: "ciAt inp i []"
  by (simp add: ciAt_def ciEq_def)

lemma ciAt_Cons:
  "ciAt inp i (c # s) \<longleftrightarrow>
     i < length inp \<and> canonicalize (inp ! i) = canonicalize c \<and> ciAt inp (Suc i) s"
proof (cases "i < length inp")
  case True
  then have "drop i inp = inp ! i # drop (Suc i) inp"
    by (simp add: Cons_nth_drop_Suc)
  then show ?thesis using True by (simp add: ciAt_def ciEq_def)
next
  case False
  then show ?thesis by (simp add: ciAt_def ciEq_def)
qed

lemma concat_map_if_single:
  "concat (map f (if P then [x] else [])) = (if P then f x else [])"
  by simp

lemma seq_lit:
  "matchesRE inp (foldr RSeq (lit s) r) (i, caps) =
     (if ciAt inp i s then matchesRE inp r (i + length s, caps) else [])"
proof (induction s arbitrary: i)
  case Nil
  then show ?case by (simp add: lit_def)
next
  case (Cons c s)
  have "matchesRE inp (foldr RSeq (lit (c # s)) r) (i, caps) =
          concat (map (matchesRE inp (foldr RSeq (lit s) r))
                      (if i < length inp \<and> canonicalize (inp ! i) = canonicalize c
                       then [(Suc i, caps)] else []))"
    by (auto simp: lit_def)
  also have "\<dots> = (if i < length inp \<and> canonicalize (inp ! i) = canonicalize c
                     then matchesRE inp (foldr RSeq (lit s) r) (Suc i, caps) else [])"
    by (rule concat_map_if_single)
  also have "\<dots> = (if ciAt inp i (c # s)
                     then matchesRE inp r (i + length (c # s), caps) else [])"
    by (simp add: Cons.IH ciAt_Cons)
  finally show ?case .
qed

lemma match_lit:
  "matchesRE inp (mkSeq (lit s)) (i, caps) = (if ciAt inp i s then [(i + length s, caps)] else [])"
  using seq_lit [of inp s REmpty i caps] by (simp add: mkSeq_def)

lemma match_alts:
  "cs \<noteq> [] \<Longrightarrow>
   matchesRE inp (mkDisj (map (\<lambda>c. mkSeq (lit c)) cs)) (i, caps) =
     concat (map (\<lambda>c. if ciAt inp i c then [(i + length c, caps)] else []) cs)"
proof (induction cs rule: list_nonempty_induct)
  case (single c)
  then show ?case by (simp add: match_lit)
next
  case (cons c cs)
  then obtain d ds where "cs = d # ds" by (cases cs) auto
  with cons.IH show ?case by (simp add: match_lit)
qed

lemma codesOr_nonempty [simp]: "codesOr cs \<noteq> []"
  by (simp add: codesOr_def)

lemma match_altCodes:
  "matchesRE inp (altCodes cs) (i, caps) =
     concat (map (\<lambda>c. if ciAt inp i c then [(i + length c, caps)] else []) (codesOr cs))"
  unfolding altCodes_def by (rule match_alts) simp

lemma map_concat_if:
  "map g (concat (map (\<lambda>c. if P c then [f c] else []) cs)) =
     concat (map (\<lambda>c. if P c then [g (f c)] else []) cs)"
  by (induction cs) simp_all

lemma match_cap:
  "matchesRE inp (RCap n (altCodes cs)) (i, caps) =
     concat (map (\<lambda>c. if ciAt inp i c
                       then [(i + length c, setCap n (take (length c) (drop i inp)) caps)] else [])
                 (codesOr cs))"
  by (simp add: match_altCodes map_concat_if cong: if_cong)

lemma groupsOf_lit [simp]: "groupsOf (foldr RSeq (lit s) REmpty) = []"
  by (induction s) (simp_all add: lit_def)

lemma match_tail:
  "matchesRE inp (foldr RSeq [ROpt (RNonCap (mkSeq (lit ss))), REol] REmpty) (k, caps) =
     (if tailOk inp k ss then [(length inp, caps)] else [])"
proof -
  have g: "groupsOf (mkSeq (lit ss)) = []" by (simp add: mkSeq_def)
  have o: "matchesRE inp (ROpt (RNonCap (mkSeq (lit ss)))) (k, caps) =
             (if ciAt inp k ss \<and> ss \<noteq> [] then [(k + length ss, caps)] else []) @ [(k, caps)]"
    by (simp add: g clearCaps_def match_lit)
  have "matchesRE inp (foldr RSeq [ROpt (RNonCap (mkSeq (lit ss))), REol] REmpty) (k, caps) =
          concat (map (matchesRE inp (RSeq REol REmpty))
                      (matchesRE inp (ROpt (RNonCap (mkSeq (lit ss)))) (k, caps)))"
    by simp
  also have "\<dots> = (if ciAt inp k ss \<and> ss \<noteq> [] \<and> k + length ss = length inp
                     then [(k + length ss, caps)] else [])
                  @ (if k = length inp then [(k, caps)] else [])"
    unfolding o by auto
  also have "\<dots> = (if tailOk inp k ss then [(length inp, caps)] else [])"
    by (auto simp: tailOk_def)
  finally show ?thesis .
qed

lemma concat_map_if_concat:
  "concat (map (\<lambda>st. f st) (concat (map (\<lambda>c. if P c then [g c] else []) cs))) =
     concat (map (\<lambda>c. if P c then f (g c) else []) cs)"
  by (induction cs) simp_all

lemma match_nameRegex:
  "matchesRE inp (nameRegex sep sfx cs) (i, []) =
     concat (map (\<lambda>c. if nameMatchAt sep sfx inp i c
                       then [(length inp, [(1, take (length c) (drop (i + length sep) inp))])]
                       else [])
                 (codesOr cs))"
proof -
  let ?tail = "foldr RSeq [ROpt (RNonCap (mkSeq (lit (sep @ sfx)))), REol] REmpty"
  have t: "(if ciAt inp (i + length sep) c
            then matchesRE inp ?tail
                   (i + length sep + length c,
                    setCap 1 (take (length c) (drop (i + length sep) inp)) [])
            else []) =
           (if ciAt inp (i + length sep) c \<and> tailOk inp (i + length sep + length c) (sep @ sfx)
            then [(length inp, [(1, take (length c) (drop (i + length sep) inp))])]
            else [])" for c
    unfolding match_tail by (simp add: setCap_def)
  have "matchesRE inp (nameRegex sep sfx cs) (i, []) =
          (if ciAt inp i sep
           then matchesRE inp (RSeq (RCap 1 (altCodes cs)) ?tail) (i + length sep, [])
           else [])"
    unfolding nameRegex_def mkSeq_def by (simp add: seq_lit)
  also have "\<dots> = (if ciAt inp i sep
           then concat (map (\<lambda>c. if ciAt inp (i + length sep) c
                                  then matchesRE inp ?tail
                                         (i + length sep + length c,
                                          setCap 1 (take (length c) (drop (i + length sep) inp)) [])
                                  else [])
                            (codesOr cs))
           else [])"
    by (simp only: matchesRE.simps(6) match_cap concat_map_if_concat)
  also have "\<dots> = (if ciAt inp i sep
           then concat (map (\<lambda>c. if ciAt inp (i + length sep) c \<and>
                                     tailOk inp (i + length sep + length c) (sep @ sfx)
                                  then [(length inp, [(1, take (length c) (drop (i + length sep) inp))])]
                                  else [])
                            (codesOr cs))
           else [])"
    unfolding t ..
  also have "\<dots> = concat (map (\<lambda>c. if nameMatchAt sep sfx inp i c
                       then [(length inp, [(1, take (length c) (drop (i + length sep) inp))])]
                       else [])
                 (codesOr cs))"
    by (simp add: nameMatchAt_def)
  finally show ?thesis .
qed


lemma match_pathRegex:
  "matchesRE p (pathRegex cs) (i, []) =
     (if i = 0
      then concat (map (\<lambda>c. if pathMatch p c
                             then [(2 + length c, [(1, take (length c) (drop 1 p))])] else [])
                       (codesOr cs))
      else [])"
proof -
  let ?tail = "foldr RSeq (lit ''/'') REmpty"
  have p: "pathRegex cs = RSeq RBol (foldr RSeq (lit ''/'') (RSeq (RCap 1 (altCodes cs)) ?tail))"
    by (simp add: pathRegex_def mkSeq_def lit_def)
  have t: "(if ciAt p 1 c
            then matchesRE p ?tail (1 + length c, setCap 1 (take (length c) (drop 1 p)) [])
            else []) =
           (if ciAt p 1 c \<and> ciAt p (1 + length c) ''/''
            then [(2 + length c, [(1, take (length c) (drop 1 p))])] else [])" for c
    unfolding seq_lit by (simp add: setCap_def)
  show ?thesis
  proof (cases "i = 0")
    case False
    then show ?thesis by (simp add: p)
  next
    case True
    have "matchesRE p (pathRegex cs) (0, []) =
            (if ciAt p 0 ''/''
             then matchesRE p (RSeq (RCap 1 (altCodes cs)) ?tail) (1, [])
             else [])"
      unfolding p by (simp add: seq_lit)
    also have "\<dots> = (if ciAt p 0 ''/''
             then concat (map (\<lambda>c. if ciAt p 1 c
                        then matchesRE p ?tail (1 + length c, setCap 1 (take (length c) (drop 1 p)) [])
                        else [])
                      (codesOr cs))
             else [])"
      by (simp only: matchesRE.simps(6) match_cap concat_map_if_concat)
    also have "\<dots> = (if ciAt p 0 ''/''
             then concat (map (\<lambda>c. if ciAt p 1 c \<and> ciAt p (1 + length c) ''/''
                        then [(2 + length c, [(1, take (length c) (drop 1 p))])] else [])
                      (codesOr cs))
             else [])"
      unfolding t ..
    also have "\<dots> = concat (map (\<lambda>c. if pathMatch p c
                             then [(2 + length c, [(1, take (length c) (drop 1 p))])] else [])
                       (codesOr cs))"
      by (simp add: pathMatch_def)
    finally show ?thesis using True by simp
  qed
qed

lemma first_of_matches:
  "(case (case concat (map (\<lambda>i. map (Pair i) (take 1 (map (\<lambda>jc. (fst jc, [(1::nat, snd jc)])) (F i)))) ns) of
           [] \<Rightarrow> None | m # ms \<Rightarrow> Some m) of
      None \<Rightarrow> JNull
    | Some (i, j, caps) \<Rightarrow> (case map_of caps 1 of None \<Rightarrow> JUndefined | Some t \<Rightarrow> JStr t))
   = firstOr (map snd (concat (map F ns)))"
proof (induction ns)
  case Nil
  then show ?case by (simp add: firstOr_def)
next
  case (Cons n ns)
  show ?case
  proof (cases "F n")
    case Nil
    with Cons show ?thesis by simp
  next
    case (Cons x xs)
    then show ?thesis by (simp add: firstOr_def)
  qed
qed

lemma execRE_first:
  assumes "\<And>i. matchesRE s r (i, []) = map (\<lambda>jc. (fst jc, [(1, snd jc)])) (F i)"
  shows "(case execRE r s of
            None \<Rightarrow> JNull
          | Some (i, j, caps) \<Rightarrow> (case map_of caps 1 of None \<Rightarrow> JUndefined | Some t \<Rightarrow> JStr t))
         = firstOr (map snd (concat (map F [0..<Suc (length s)])))"
  unfolding execRE_def assms by (rule first_of_matches)

lemma firstCapture_matchJS:
  "bindE (matchJS (JStr s) (r, 1)) (\<lambda>matches. Inr (firstCapture matches)) =
     Inr (case execRE r s of
            None \<Rightarrow> JNull
          | Some (i, j, caps) \<Rightarrow> (case map_of caps 1 of None \<Rightarrow> JUndefined | Some t \<Rightarrow> JStr t))"
  by (simp add: matchJS_def firstCapture_def split: option.splits)

lemma map_snd_concat:
  "map snd (concat (map (\<lambda>i. concat (map (\<lambda>c. if P i c then [(e i c, f i c)] else []) cs)) ns)) =
     concat (map (\<lambda>i. concat (map (\<lambda>c. if P i c then [f i c] else []) cs)) ns)"
  by (induction ns) (simp_all add: map_concat_if cong: if_cong)

lemma name_capture:
  "bindE (matchJS (JStr name) (nameRegex sep sfx cs, 1)) (\<lambda>matches. Inr (firstCapture matches)) =
     Inr (firstOr (nameCaptures sep sfx (codesOr cs) name))"
proof -
  let ?F = "\<lambda>i. concat (map (\<lambda>c. if nameMatchAt sep sfx name i c
                                    then [(length name, take (length c) (drop (i + length sep) name))] else [])
                              (codesOr cs))"
  have m: "matchesRE name (nameRegex sep sfx cs) (i, []) =
             map (\<lambda>jc. (fst jc, [(1, snd jc)])) (?F i)" for i
    by (simp add: match_nameRegex map_concat_if cong: if_cong)
  have "(case execRE (nameRegex sep sfx cs) name of
            None \<Rightarrow> JNull
          | Some (i, j, caps) \<Rightarrow> (case map_of caps 1 of None \<Rightarrow> JUndefined | Some t \<Rightarrow> JStr t))
         = firstOr (map snd (concat (map ?F [0..<Suc (length name)])))"
    by (rule execRE_first [OF m])
  also have "\<dots> = firstOr (nameCaptures sep sfx (codesOr cs) name)"
    unfolding nameCaptures_def map_snd_concat ..
  finally show ?thesis
    unfolding firstCapture_matchJS by simp
qed

lemma concat_map_nil: "(\<And>i. i \<in> set ns \<Longrightarrow> f i = []) \<Longrightarrow> concat (map f ns) = []"
  by (induction ns) simp_all

lemma path_capture:
  "bindE (matchJS (JStr p) (pathRegex cs, 1)) (\<lambda>matches. Inr (firstCapture matches)) =
     Inr (firstOr (pathCaptures (codesOr cs) p))"
proof -
  let ?G = "concat (map (\<lambda>c. if pathMatch p c
                             then [(2 + length c, take (length c) (drop 1 p))] else [])
                       (codesOr cs))"
  let ?F = "\<lambda>i::nat. if i = 0 then ?G else []"
  have m: "matchesRE p (pathRegex cs) (i, []) =
             map (\<lambda>jc. (fst jc, [(1, snd jc)])) (?F i)" for i
    by (simp add: match_pathRegex map_concat_if cong: if_cong)
  have u: "[0..<Suc (length p)] = 0 # [1..<Suc (length p)]" by (simp add: upt_rec)
  have z: "concat (map ?F [1..<Suc (length p)]) = []"
    by (rule concat_map_nil) auto
  have g: "map snd ?G = pathCaptures (codesOr cs) p"
    by (simp add: pathCaptures_def map_concat_if cong: if_cong)
  have "(case execRE (pathRegex cs) p of
            None \<Rightarrow> JNull
          | Some (i, j, caps) \<Rightarrow> (case map_of caps 1 of None \<Rightarrow> JUndefined | Some t \<Rightarrow> JStr t))
         = firstOr (map snd (concat (map ?F [0..<Suc (length p)])))"
    by (rule execRE_first [OF m])
  also have "concat (map ?F [0..<Suc (length p)]) = ?G"
    unfolding u using z by simp
  finally show ?thesis
    unfolding firstCapture_matchJS g by simp
qed


subsection \<open>The extractor for parameters without syntax characters\<close>

lemma sequenceE_records:
  "list_all2 recordWithCode ls cs \<Longrightarrow>
   sequenceE (map (\<lambda>l. getProp l LOCALE_CODE_KEY) ls) = Inr (map JStr cs)"
proof (induction ls cs rule: list_all2_induct)
  case Nil
  then show ?case by simp
next
  case (Cons l ls c cs)
  from Cons.hyps(1) obtain kvs where "l = JObj kvs" "map_of kvs LOCALE_CODE_KEY = Some (JStr c)"
    by (cases l) simp_all
  with Cons.IH show ?case by simp
qed

lemma localeList_codes:
  assumes "localeList locales cs"
  shows "getLocaleCodes locales = Inr (JArr (map JStr cs))"
proof (cases locales)
  case JUndefined
  with assms show ?thesis by (simp add: getLocaleCodes_def)
next
  case (JArr ls)
  show ?thesis
  proof (cases ls)
    case Nil
    with assms JArr show ?thesis by (auto simp: getLocaleCodes_def)
  next
    case (Cons l ls')
    from assms JArr consider (strs) "ls = map JStr cs" | (recs) "list_all2 recordWithCode ls cs"
      by auto
    then show ?thesis
    proof cases
      case strs
      with Cons obtain c cs' where "cs = c # cs'" by (cases cs) auto
      with strs JArr show ?thesis by (simp add: getLocaleCodes_nonempty)
    next
      case recs
      with Cons obtain c cs' where c: "cs = c # cs'" and r: "recordWithCode l c"
        by (cases cs) auto
      from r obtain kvs where l: "l = JObj kvs" "map_of kvs LOCALE_CODE_KEY = Some (JStr c)"
        by (cases l) simp_all
      have "getLocaleCodes (JArr (l # ls')) =
              arrayMap (JArr (l # ls')) (\<lambda>locale. getProp locale LOCALE_CODE_KEY)"
        using l by (simp add: getLocaleCodes_nonempty)
      also have "\<dots> = Inr (JArr (map JStr cs))"
        using sequenceE_records [OF recs] Cons by (simp add: arrayMap_def)
      finally show ?thesis using JArr Cons by simp
    qed
  qed
qed (use assms in simp_all)

lemma localeList_codes_default:
  assumes "localeList locales cs"
  shows "getLocaleCodes (orDefault locales (JArr [])) = Inr (JArr (map JStr cs))"
proof (cases "locales = JUndefined")
  case True
  with assms show ?thesis by (simp add: orDefault_def getLocaleCodes_def)
next
  case False
  then show ?thesis using localeList_codes [OF assms] by (simp add: orDefault_def)
qed

lemma sequenceE_strs:
  "sequenceE (map ((\<lambda>x. if x = JUndefined \<or> x = JNull then Inr [] else toStringJS x) \<circ> JStr) cs)
     = Inr cs"
  by (induction cs) simp_all

lemma arrayJoin_strs: "arrayJoin (JArr (map JStr cs)) j = Inr (intercalate j cs)"
  by (simp add: arrayJoin_def sequenceE_strs)

lemma strOrAbsent_toString:
  "strOrAbsent v s \<Longrightarrow> toStringJS (orDefault v (JStr [])) = Inr s"
  by (cases v) (simp_all add: orDefault_def)

lemma routeFields_getProp:
  "routeFields route r \<Longrightarrow> k \<notin> set objectPrototypeKeys \<Longrightarrow>
   getProp (orDefault route (JObj [])) k = Inr (entryOf r k)"
  by (cases route) (simp_all add: orDefault_def getProp_obj del: getProp.simps)

lemma getLocaleFromRoute_literal:
  assumes ll: "localeList locales cs"
      and sep: "strOrAbsent separator sep" "regexLiteral sep"
      and sfx: "strOrAbsent defaultSuffix sfx" "regexLiteral sfx"
      and cs: "\<forall>c\<in>set cs. regexLiteral c"
      and rt: "routeFields route r"
  shows "getLocaleFromRoute route separator defaultSuffix locales =
           (if truthy (entryOf r ''name'') then
              (case entryOf r ''name'' of
                 JStr name \<Rightarrow> Inr (firstOr (nameCaptures sep sfx (codesOr cs) name))
               | _ \<Rightarrow> Inl (noMethod (entryOf r ''name'') ''match''))
            else if truthy (entryOf r ''path'') then
              (case entryOf r ''path'' of
                 JStr p \<Rightarrow> Inr (firstOr (pathCaptures (codesOr cs) p))
               | _ \<Rightarrow> Inl (noMethod (entryOf r ''path'') ''match''))
            else Inr JNull)"
proof -
  note nr = newRegExp_name [OF sep(2) sfx(2) cs]
  note pr = newRegExp_path [OF cs]
  have m: "bindE (matchJS v (nameRegex sep sfx cs, 1)) (\<lambda>matches. Inr (firstCapture matches)) =
           (case v of JStr name \<Rightarrow> Inr (firstOr (nameCaptures sep sfx (codesOr cs) name))
            | _ \<Rightarrow> Inl (noMethod v ''match''))" for v
  proof (cases v)
    case (JStr name)
    then show ?thesis using name_capture [of name sep sfx cs] by simp
  qed (simp_all add: matchJS_def)
  have p: "bindE (matchJS v (pathRegex cs, 1)) (\<lambda>matches. Inr (firstCapture matches)) =
           (case v of JStr p \<Rightarrow> Inr (firstOr (pathCaptures (codesOr cs) p))
            | _ \<Rightarrow> Inl (noMethod v ''match''))" for v
  proof (cases v)
    case (JStr q)
    then show ?thesis using path_capture [of q cs] by simp
  qed (simp_all add: matchJS_def)
  show ?thesis
    unfolding getLocaleFromRoute_def Let_def
    by (simp only: localeList_codes_default [OF ll] arrayJoin_strs bindE_Inr
          strOrAbsent_toString [OF sep(1)] strOrAbsent_toString [OF sfx(1)]
          routeFields_getProp [OF rt plain_keys(2)] routeFields_getProp [OF rt plain_keys(3)]
          nr pr m p)
qed


subsection \<open>Matches as decompositions of the text\<close>

lemma ciEq_length: "ciEq a b \<Longrightarrow> length a = length b"
  unfolding ciEq_def by (rule map_eq_imp_length_eq)

lemma canonicalize_slash: "canonicalize x = canonicalize CHR ''/'' \<longleftrightarrow> x = CHR ''/''"
proof
  assume a: "canonicalize x = canonicalize CHR ''/''"
  have s: "canonicalize CHR ''/'' = 47" by (simp add: canonicalize_def)
  have "(of_char x :: nat) = 47"
    using a unfolding s canonicalize_def Let_def by (simp split: if_splits)
  then have "(of_char x :: nat) = of_char CHR ''/''" by simp
  then show "x = CHR ''/''" by (simp only: of_char_eq_iff)
qed simp

lemma firstOr_null: "firstOr xs = JNull \<longleftrightarrow> xs = []"
  by (cases xs) (simp_all add: firstOr_def)

lemma firstOr_str: "firstOr xs = JStr cap \<Longrightarrow> cap \<in> set xs"
  by (cases xs) (simp_all add: firstOr_def)

lemma in_concat_if:
  "x \<in> set (concat (map (\<lambda>c. if P c then [f c] else []) cs)) \<longleftrightarrow> (\<exists>c\<in>set cs. P c \<and> x = f c)"
  by (induction cs) auto

lemma in_concat_concat_if:
  "x \<in> set (concat (map (\<lambda>i. concat (map (\<lambda>c. if P i c then [f i c] else []) cs)) ns)) \<longleftrightarrow>
     (\<exists>i\<in>set ns. \<exists>c\<in>set cs. P i c \<and> x = f i c)"
proof (induction ns)
  case Nil
  then show ?case by simp
next
  case (Cons n ns)
  have "x \<in> set (concat (map (\<lambda>i. concat (map (\<lambda>c. if P i c then [f i c] else []) cs)) (n # ns)))
        \<longleftrightarrow> x \<in> set (concat (map (\<lambda>c. if P n c then [f n c] else []) cs)) \<or>
            x \<in> set (concat (map (\<lambda>i. concat (map (\<lambda>c. if P i c then [f i c] else []) cs)) ns))"
    by (simp only: list.map concat.simps set_append Un_iff)
  also have "\<dots> \<longleftrightarrow> (\<exists>c\<in>set cs. P n c \<and> x = f n c) \<or> (\<exists>i\<in>set ns. \<exists>c\<in>set cs. P i c \<and> x = f i c)"
    by (simp only: in_concat_if Cons.IH)
  also have "\<dots> \<longleftrightarrow> (\<exists>i\<in>set (n # ns). \<exists>c\<in>set cs. P i c \<and> x = f i c)"
    by auto
  finally show ?case .
qed

lemma bex_upt_Suc: "(\<exists>i\<in>set [0..<Suc n]. Q i) \<longleftrightarrow> (\<exists>i\<le>n. Q i)"
  unfolding Bex_def by (simp only: set_upt atLeastLessThan_iff less_Suc_eq_le le0 simp_thms)

lemma nameCaptures_set:
  "cap \<in> set (nameCaptures sep sfx cs name) \<longleftrightarrow>
     (\<exists>i\<le>length name. \<exists>c\<in>set cs. nameMatchAt sep sfx name i c \<and>
        cap = take (length c) (drop (i + length sep) name))"
proof -
  have "cap \<in> set (nameCaptures sep sfx cs name) \<longleftrightarrow>
          (\<exists>i\<in>set [0..<Suc (length name)]. \<exists>c\<in>set cs. nameMatchAt sep sfx name i c \<and>
             cap = take (length c) (drop (i + length sep) name))"
    unfolding nameCaptures_def by (rule in_concat_concat_if)
  also have "\<dots> \<longleftrightarrow> (\<exists>i\<le>length name. \<exists>c\<in>set cs. nameMatchAt sep sfx name i c \<and>
        cap = take (length c) (drop (i + length sep) name))"
    by (rule bex_upt_Suc)
  finally show ?thesis .
qed

lemma pathCaptures_set:
  "cap \<in> set (pathCaptures cs p) \<longleftrightarrow>
     (\<exists>c\<in>set cs. pathMatch p c \<and> cap = take (length c) (drop 1 p))"
  unfolding pathCaptures_def by (rule in_concat_if)

lemma ciAt_split:
  assumes "ciAt inp i s"
  shows "drop i inp = take (length s) (drop i inp) @ drop (i + length s) inp"
    and "ciEq (take (length s) (drop i inp)) s"
    and "length (take (length s) (drop i inp)) = length s"
proof -
  show "drop i inp = take (length s) (drop i inp) @ drop (i + length s) inp"
    by (metis add.commute append_take_drop_id drop_drop)
  show c: "ciEq (take (length s) (drop i inp)) s" using assms by (simp add: ciAt_def)
  show "length (take (length s) (drop i inp)) = length s" by (rule ciEq_length [OF c])
qed

lemma ciAt_append:
  assumes "length pre = i" "ciEq m s"
  shows "ciAt (pre @ m @ post) i s"
proof -
  have l: "length m = length s" by (rule ciEq_length [OF assms(2)])
  have "take (length s) (drop i (pre @ m @ post)) = m" using assms(1) l by simp
  with assms(2) show ?thesis by (simp add: ciAt_def)
qed

lemma nameMatchAt_decompose:
  assumes m: "nameMatchAt sep sfx name i c" and i: "i \<le> length name"
  shows "\<exists>pre s tail. name = pre @ s @ take (length c) (drop (i + length sep) name) @ tail \<and>
           length pre = i \<and> ciEq s sep \<and> ciEq (take (length c) (drop (i + length sep) name)) c \<and>
           (tail = [] \<or> ciEq tail (sep @ sfx))"
proof -
  let ?j = "i + length sep"
  let ?k = "?j + length c"
  from m have a: "ciAt name i sep" and b: "ciAt name ?j c" and t: "tailOk name ?k (sep @ sfx)"
    by (simp_all add: nameMatchAt_def)
  let ?s = "take (length sep) (drop i name)"
  let ?cap = "take (length c) (drop ?j name)"
  let ?tail = "drop ?k name"
  have n1: "name = take i name @ drop i name" by simp
  have n2: "drop i name = ?s @ drop ?j name" by (rule ciAt_split(1) [OF a])
  have n3: "drop ?j name = ?cap @ ?tail" by (rule ciAt_split(1) [OF b])
  have n: "name = take i name @ ?s @ ?cap @ ?tail"
    using n1 n2 n3 by metis
  have tl: "?tail = [] \<or> ciEq ?tail (sep @ sfx)"
  proof (cases "?k = length name")
    case True
    then show ?thesis by simp
  next
    case False
    with t have l: "?k + length (sep @ sfx) = length name" and c: "ciAt name ?k (sep @ sfx)"
      by (simp_all add: tailOk_def)
    from l have "take (length (sep @ sfx)) ?tail = ?tail" by simp
    with c show ?thesis by (simp add: ciAt_def)
  qed
  have "length (take i name) = i" using i by simp
  with n ciAt_split(2) [OF a] ciAt_split(2) [OF b] tl show ?thesis by blast
qed

lemma nameMatchAt_compose:
  assumes "ciEq s sep" "ciEq cap c" "tail = [] \<or> ciEq tail (sep @ sfx)"
  shows "nameMatchAt sep sfx (pre @ s @ cap @ tail) (length pre) c \<and>
         cap = take (length c) (drop (length pre + length sep) (pre @ s @ cap @ tail))"
proof -
  have ls: "length s = length sep" by (rule ciEq_length [OF assms(1)])
  have lc: "length cap = length c" by (rule ciEq_length [OF assms(2)])
  have a: "ciAt (pre @ s @ cap @ tail) (length pre) sep"
    using ciAt_append [OF refl assms(1), of pre "cap @ tail"] by simp
  have b: "ciAt (pre @ s @ cap @ tail) (length pre + length sep) c"
    using ciAt_append [OF _ assms(2), of "pre @ s" "length pre + length sep" tail] ls by simp
  have t: "tailOk (pre @ s @ cap @ tail) (length pre + length sep + length c) (sep @ sfx)"
  proof (cases "tail = []")
    case True
    then show ?thesis using ls lc by (simp add: tailOk_def)
  next
    case False
    with assms(3) have e: "ciEq tail (sep @ sfx)" by simp
    have lt: "length tail = length (sep @ sfx)" by (rule ciEq_length [OF e])
    have "ciAt ((pre @ s @ cap) @ tail @ []) (length pre + length sep + length c) (sep @ sfx)"
      by (rule ciAt_append [OF _ e]) (simp add: ls lc)
    then show ?thesis using ls lc lt by (simp add: tailOk_def)
  qed
  have "cap = take (length c) (drop (length pre + length sep) (pre @ s @ cap @ tail))"
    using ls lc by simp
  with a b t show ?thesis by (simp add: nameMatchAt_def)
qed


lemma ciAt_slash: "ciAt p i ''/'' \<longleftrightarrow> (\<exists>rest. drop i p = CHR ''/'' # rest)"
proof
  assume "ciAt p i ''/''"
  then have i: "i < length p" and c: "canonicalize (p ! i) = canonicalize CHR ''/''"
    by (simp_all add: ciAt_Cons)
  from c have "p ! i = CHR ''/''" by (simp only: canonicalize_slash)
  with i have "drop i p = CHR ''/'' # drop (Suc i) p" by (simp add: Cons_nth_drop_Suc [symmetric])
  then show "\<exists>rest. drop i p = CHR ''/'' # rest" by blast
next
  assume "\<exists>rest. drop i p = CHR ''/'' # rest"
  then obtain rest where r: "drop i p = CHR ''/'' # rest" by blast
  then show "ciAt p i ''/''" by (simp add: ciAt_def ciEq_def)
qed

lemma pathMatch_decompose:
  assumes "pathMatch p c"
  shows "\<exists>rest. p = ''/'' @ take (length c) (drop 1 p) @ ''/'' @ rest \<and>
                ciEq (take (length c) (drop 1 p)) c"
proof -
  from assms have a: "ciAt p 0 ''/''" and b: "ciAt p 1 c" and d: "ciAt p (1 + length c) ''/''"
    by (simp_all add: pathMatch_def)
  from a obtain r1 where r1: "p = CHR ''/'' # r1" by (auto simp: ciAt_slash)
  from d obtain r2 where r2: "drop (1 + length c) p = CHR ''/'' # r2" by (auto simp: ciAt_slash)
  have "drop 1 p = take (length c) (drop 1 p) @ drop (1 + length c) p"
    by (rule ciAt_split(1) [OF b])
  with r1 r2 have "p = ''/'' @ take (length c) (drop 1 p) @ ''/'' @ r2" by simp
  with ciAt_split(2) [OF b] show ?thesis by blast
qed

lemma pathMatch_compose:
  assumes "ciEq cap c"
  shows "pathMatch (''/'' @ cap @ ''/'' @ rest) c \<and>
         cap = take (length c) (drop 1 (''/'' @ cap @ ''/'' @ rest))"
proof -
  have l: "length cap = length c" by (rule ciEq_length [OF assms])
  have a: "ciAt (''/'' @ cap @ ''/'' @ rest) 0 ''/''" by (simp add: ciAt_slash)
  have b: "ciAt (''/'' @ cap @ ''/'' @ rest) 1 c"
    using ciAt_append [OF _ assms, of "''/''" 1 "''/'' @ rest"] by simp
  have d: "ciAt (''/'' @ cap @ ''/'' @ rest) (1 + length c) ''/''"
    using l by (simp add: ciAt_slash)
  show ?thesis using a b d l by (simp add: pathMatch_def)
qed

lemma name_result_sound:
  assumes "firstOr (nameCaptures sep sfx cs name) = JStr cap"
  shows "\<exists>pre s tail c. name = pre @ s @ cap @ tail \<and> ciEq s sep \<and> c \<in> set cs \<and> ciEq cap c \<and>
           (tail = [] \<or> ciEq tail (sep @ sfx))"
proof -
  from firstOr_str [OF assms] obtain i c where i: "i \<le> length name" and c: "c \<in> set cs"
    and m: "nameMatchAt sep sfx name i c" and cap: "cap = take (length c) (drop (i + length sep) name)"
    unfolding nameCaptures_set by blast
  from nameMatchAt_decompose [OF m i] cap obtain pre s tail where
    "name = pre @ s @ cap @ tail" "ciEq s sep" "ciEq cap c" "tail = [] \<or> ciEq tail (sep @ sfx)"
    by auto
  with c show ?thesis by blast
qed

lemma name_result_complete:
  assumes "name = pre @ s @ cap @ tail" "ciEq s sep" "c \<in> set cs" "ciEq cap c"
          "tail = [] \<or> ciEq tail (sep @ sfx)"
  shows "\<exists>cap'. firstOr (nameCaptures sep sfx cs name) = JStr cap'"
proof -
  from nameMatchAt_compose [OF assms(2,4,5), of pre] assms(1)
  have m: "nameMatchAt sep sfx name (length pre) c"
    and cp: "cap = take (length c) (drop (length pre + length sep) name)" by simp_all
  have "length pre \<le> length name" using assms(1) by simp
  with m cp assms(3) have "cap \<in> set (nameCaptures sep sfx cs name)"
    unfolding nameCaptures_set by blast
  then have "nameCaptures sep sfx cs name \<noteq> []" by auto
  then show ?thesis by (cases "nameCaptures sep sfx cs name") (simp_all add: firstOr_def)
qed

lemma path_result_sound:
  assumes "firstOr (pathCaptures cs p) = JStr cap"
  shows "\<exists>c rest. p = ''/'' @ cap @ ''/'' @ rest \<and> c \<in> set cs \<and> ciEq cap c"
proof -
  from firstOr_str [OF assms] obtain c where c: "c \<in> set cs" and m: "pathMatch p c"
    and cap: "cap = take (length c) (drop 1 p)"
    unfolding pathCaptures_set by blast
  from pathMatch_decompose [OF m] cap obtain rest where
    "p = ''/'' @ cap @ ''/'' @ rest" "ciEq cap c" by auto
  with c show ?thesis by blast
qed

lemma path_result_complete:
  assumes "p = ''/'' @ cap @ ''/'' @ rest" "c \<in> set cs" "ciEq cap c"
  shows "\<exists>cap'. firstOr (pathCaptures cs p) = JStr cap'"
proof -
  from pathMatch_compose [OF assms(3), of rest] assms(1)
  have m: "pathMatch p c" and cp: "cap = take (length c) (drop 1 p)" by simp_all
  with assms(2) have "cap \<in> set (pathCaptures cs p)"
    unfolding pathCaptures_set by blast
  then have "pathCaptures cs p \<noteq> []" by auto
  then show ?thesis by (cases "pathCaptures cs p") (simp_all add: firstOr_def)
qed

subsection \<open>Claim C4\<close>

lemma codesOr_id: "cs \<noteq> [] \<Longrightarrow> codesOr cs = cs"
  by (simp add: codesOr_def)

text \<open>
  C4 (as the specification states it). For every route, separator, suffix and locale
  list the extractor is said to return the code captured from the name or the path, and
  \<^verbatim>\<open>null\<close> when nothing matches. With an empty locale list no code is configured, yet
  the path \<^verbatim>\<open>//about\<close> gives the empty string. The separator is read as regular
  expression syntax: with the separator \<^verbatim>\<open>.\<close> the name \<^verbatim>\<open>aboutXfr\<close>, which holds no
  dot, gives \<^verbatim>\<open>fr\<close>, and with the separator \<^verbatim>\<open>|\<close> the name \<^verbatim>\<open>about\<close> gives
  \<^verbatim>\<open>undefined\<close>, neither a code nor \<^verbatim>\<open>null\<close>.
\<close>

theorem getLocaleFromRoute_matches_counterexample:
  "getLocaleFromRoute (JObj [(''path'', JStr ''//about'')]) (JStr ''-'') (JStr ''default'') (JArr [])
     = Inr (JStr []) \<and>
   getLocaleFromRoute (JObj [(''name'', JStr ''aboutXfr'')]) (JStr ''.'') (JStr ''default'')
     (JArr [JStr ''en'', JStr ''fr'']) = Inr (JStr ''fr'') \<and>
   getLocaleFromRoute (JObj [(''name'', JStr ''about'')]) (JStr ''|'') (JStr ''default'')
     (JArr [JStr ''en'', JStr ''fr'']) = Inr JUndefined"
  by code_simp


text \<open>
  C4 (amended). Let the locale list be non-empty (a list of code strings or of records
  with string codes) and let the separator, the suffix and the codes hold no regular
  expression syntax character; absent parameters take their defaults. If the route has
  a non-empty name, the result is the first text of the name, by start index and then by
  the order of the codes, that follows the separator, equals a configured code
  case-insensitively and is followed by the end of the name or by the separator, the
  suffix and the end of the name; it is \<^verbatim>\<open>null\<close> when the name has no such
  decomposition. Else, if the route has a non-empty path, the result is the text between
  the two slashes when the path starts with a slash, a text equal to a configured code
  case-insensitively and a slash, and \<^verbatim>\<open>null\<close> otherwise. With neither field the
  result is \<^verbatim>\<open>null\<close>. With the separator \<^verbatim>\<open>-\<close>, the suffix \<^verbatim>\<open>default\<close> and the
  locales \<^verbatim>\<open>["en", "fr"]\<close>: the name \<^verbatim>\<open>about-fr\<close> gives \<^verbatim>\<open>fr\<close>, the name
  \<^verbatim>\<open>about-en-default\<close> gives \<^verbatim>\<open>en\<close>, the path \<^verbatim>\<open>/fr/about\<close> gives \<^verbatim>\<open>fr\<close>, and a
  route with neither gives \<^verbatim>\<open>null\<close>.
\<close>

theorem getLocaleFromRoute_matches:
  assumes ll: "localeList locales cs" and ne: "cs \<noteq> []"
      and sep: "strOrAbsent routesNameSeparator sep" "regexLiteral sep"
      and sfx: "strOrAbsent defaultLocaleRouteNameSuffix sfx" "regexLiteral sfx"
      and cs: "\<forall>c\<in>set cs. regexLiteral c"
      and rt: "routeFields route r"
  shows "(\<forall>name. entryOf r ''name'' = JStr name \<and> name \<noteq> [] \<longrightarrow>
            getLocaleFromRoute route routesNameSeparator defaultLocaleRouteNameSuffix locales
              = Inr (firstOr (nameCaptures sep sfx cs name)) \<and>
            (\<forall>cap. firstOr (nameCaptures sep sfx cs name) = JStr cap \<longrightarrow>
               (\<exists>pre s tail c. name = pre @ s @ cap @ tail \<and> ciEq s sep \<and> c \<in> set cs \<and>
                  ciEq cap c \<and> (tail = [] \<or> ciEq tail (sep @ sfx)))) \<and>
            ((\<exists>pre s cap tail c. name = pre @ s @ cap @ tail \<and> ciEq s sep \<and> c \<in> set cs \<and>
                  ciEq cap c \<and> (tail = [] \<or> ciEq tail (sep @ sfx))) \<longrightarrow>
               (\<exists>cap. firstOr (nameCaptures sep sfx cs name) = JStr cap)) \<and>
            ((\<nexists>pre s cap tail c. name = pre @ s @ cap @ tail \<and> ciEq s sep \<and> c \<in> set cs \<and>
                  ciEq cap c \<and> (tail = [] \<or> ciEq tail (sep @ sfx))) \<longrightarrow>
               firstOr (nameCaptures sep sfx cs name) = JNull)) \<and>
         (\<forall>p. \<not> truthy (entryOf r ''name'') \<and> entryOf r ''path'' = JStr p \<and> p \<noteq> [] \<longrightarrow>
            getLocaleFromRoute route routesNameSeparator defaultLocaleRouteNameSuffix locales
              = Inr (firstOr (pathCaptures cs p)) \<and>
            (\<forall>cap. firstOr (pathCaptures cs p) = JStr cap \<longrightarrow>
               (\<exists>c rest. p = ''/'' @ cap @ ''/'' @ rest \<and> c \<in> set cs \<and> ciEq cap c)) \<and>
            ((\<exists>cap c rest. p = ''/'' @ cap @ ''/'' @ rest \<and> c \<in> set cs \<and> ciEq cap c) \<longrightarrow>
               (\<exists>cap. firstOr (pathCaptures cs p) = JStr cap)) \<and>
            ((\<nexists>cap c rest. p = ''/'' @ cap @ ''/'' @ rest \<and> c \<in> set cs \<and> ciEq cap c) \<longrightarrow>
               firstOr (pathCaptures cs p) = JNull)) \<and>
         (\<not> truthy (entryOf r ''name'') \<and> \<not> truthy (entryOf r ''path'') \<longrightarrow>
            getLocaleFromRoute route routesNameSeparator defaultLocaleRouteNameSuffix locales
              = Inr JNull) \<and>
         getLocaleFromRoute (JObj [(''name'', JStr ''about-fr'')]) (JStr ''-'') (JStr ''default'')
           (JArr [JStr ''en'', JStr ''fr'']) = Inr (JStr ''fr'') \<and>
         getLocaleFromRoute (JObj [(''name'', JStr ''about-en-default'')]) (JStr ''-'') (JStr ''default'')
           (JArr [JStr ''en'', JStr ''fr'']) = Inr (JStr ''en'') \<and>
         getLocaleFromRoute (JObj [(''path'', JStr ''/fr/about'')]) (JStr ''-'') (JStr ''default'')
           (JArr [JStr ''en'', JStr ''fr'']) = Inr (JStr ''fr'') \<and>
         getLocaleFromRoute (JObj []) (JStr ''-'') (JStr ''default'')
           (JArr [JStr ''en'', JStr ''fr'']) = Inr JNull"
proof -
  note g = getLocaleFromRoute_literal [OF ll sep sfx cs rt, unfolded codesOr_id [OF ne]]
  have n: "getLocaleFromRoute route routesNameSeparator defaultLocaleRouteNameSuffix locales
              = Inr (firstOr (nameCaptures sep sfx cs name))"
    if "entryOf r ''name'' = JStr name \<and> name \<noteq> []" for name
    using that g by simp
  have n3: "firstOr (nameCaptures sep sfx cs name) = JNull"
    if "\<nexists>pre s cap tail c. name = pre @ s @ cap @ tail \<and> ciEq s sep \<and> c \<in> set cs \<and>
                  ciEq cap c \<and> (tail = [] \<or> ciEq tail (sep @ sfx))" for name
  proof (cases "nameCaptures sep sfx cs name")
    case Nil
    then show ?thesis by (simp add: firstOr_def)
  next
    case (Cons cap caps)
    then have "firstOr (nameCaptures sep sfx cs name) = JStr cap" by (simp add: firstOr_def)
    from name_result_sound [OF this] that show ?thesis by blast
  qed
  have p: "getLocaleFromRoute route routesNameSeparator defaultLocaleRouteNameSuffix locales
              = Inr (firstOr (pathCaptures cs q))"
    if "\<not> truthy (entryOf r ''name'') \<and> entryOf r ''path'' = JStr q \<and> q \<noteq> []" for q
    using that g by simp
  have p3: "firstOr (pathCaptures cs q) = JNull"
    if "\<nexists>cap c rest. q = ''/'' @ cap @ ''/'' @ rest \<and> c \<in> set cs \<and> ciEq cap c" for q
  proof (cases "pathCaptures cs q")
    case Nil
    then show ?thesis by (simp add: firstOr_def)
  next
    case (Cons cap caps)
    then have "firstOr (pathCaptures cs q) = JStr cap" by (simp add: firstOr_def)
    from path_result_sound [OF this] that show ?thesis by blast
  qed
  have z: "getLocaleFromRoute route routesNameSeparator defaultLocaleRouteNameSuffix locales = Inr JNull"
    if "\<not> truthy (entryOf r ''name'') \<and> \<not> truthy (entryOf r ''path'')"
    using that g by simp
  have e1: "getLocaleFromRoute (JObj [(''name'', JStr ''about-fr'')]) (JStr ''-'') (JStr ''default'')
           (JArr [JStr ''en'', JStr ''fr'']) = Inr (JStr ''fr'')" by code_simp
  have e2: "getLocaleFromRoute (JObj [(''name'', JStr ''about-en-default'')]) (JStr ''-'') (JStr ''default'')
           (JArr [JStr ''en'', JStr ''fr'']) = Inr (JStr ''en'')" by code_simp
  have e3: "getLocaleFromRoute (JObj [(''path'', JStr ''/fr/about'')]) (JStr ''-'') (JStr ''default'')
           (JArr [JStr ''en'', JStr ''fr'']) = Inr (JStr ''fr'')" by code_simp
  have e4: "getLocaleFromRoute (JObj []) (JStr ''-'') (JStr ''default'')
           (JArr [JStr ''en'', JStr ''fr'']) = Inr JNull" by code_simp
  show ?thesis
  proof (intro conjI allI impI)
    fix name assume "entryOf r ''name'' = JStr name \<and> name \<noteq> []"
    then show "getLocaleFromRoute route routesNameSeparator defaultLocaleRouteNameSuffix locales
              = Inr (firstOr (nameCaptures sep sfx cs name))" by (rule n)
  next
    fix name cap assume "firstOr (nameCaptures sep sfx cs name) = JStr cap"
    then show "\<exists>pre s tail c. name = pre @ s @ cap @ tail \<and> ciEq s sep \<and> c \<in> set cs \<and>
                  ciEq cap c \<and> (tail = [] \<or> ciEq tail (sep @ sfx))"
      by (rule name_result_sound)
  next
    fix name
    assume "\<exists>pre s cap tail c. name = pre @ s @ cap @ tail \<and> ciEq s sep \<and> c \<in> set cs \<and>
                  ciEq cap c \<and> (tail = [] \<or> ciEq tail (sep @ sfx))"
    then obtain pre s cap tail c where "name = pre @ s @ cap @ tail" "ciEq s sep" "c \<in> set cs"
       "ciEq cap c" "tail = [] \<or> ciEq tail (sep @ sfx)" by blast
    then show "\<exists>cap. firstOr (nameCaptures sep sfx cs name) = JStr cap"
      by (rule name_result_complete)
  next
    fix name
    assume "\<nexists>pre s cap tail c. name = pre @ s @ cap @ tail \<and> ciEq s sep \<and> c \<in> set cs \<and>
                  ciEq cap c \<and> (tail = [] \<or> ciEq tail (sep @ sfx))"
    then show "firstOr (nameCaptures sep sfx cs name) = JNull" by (rule n3)
  next
    fix q assume "\<not> truthy (entryOf r ''name'') \<and> entryOf r ''path'' = JStr q \<and> q \<noteq> []"
    then show "getLocaleFromRoute route routesNameSeparator defaultLocaleRouteNameSuffix locales
              = Inr (firstOr (pathCaptures cs q))" by (rule p)
  next
    fix q cap assume "firstOr (pathCaptures cs q) = JStr cap"
    then show "\<exists>c rest. q = ''/'' @ cap @ ''/'' @ rest \<and> c \<in> set cs \<and> ciEq cap c"
      by (rule path_result_sound)
  next
    fix q assume "\<exists>cap c rest. q = ''/'' @ cap @ ''/'' @ rest \<and> c \<in> set cs \<and> ciEq cap c"
    then obtain cap c rest where "q = ''/'' @ cap @ ''/'' @ rest" "c \<in> set cs" "ciEq cap c"
      by blast
    then show "\<exists>cap. firstOr (pathCaptures cs q) = JStr cap" by (rule path_result_complete)
  next
    fix q assume "\<nexists>cap c rest. q = ''/'' @ cap @ ''/'' @ rest \<and> c \<in> set cs \<and> ciEq cap c"
    then show "firstOr (pathCaptures cs q) = JNull" by (rule p3)
  next
    assume "\<not> truthy (entryOf r ''name'') \<and> \<not> truthy (entryOf r ''path'')"
    then show "getLocaleFromRoute route routesNameSeparator defaultLocaleRouteNameSuffix locales = Inr JNull"
      by (rule z)
  qed (rule e1 e2 e3 e4)+
qed

theorem getLocaleFromRoute_matches_witness:
  "getLocaleFromRoute (JObj [(''name'', JStr ''blog-FR-default'')]) (JStr ''-'') (JStr ''default'')
     (JArr [JStr ''en'', JStr ''fr'']) = Inr (JStr ''FR'')"
proof -
  have ll: "localeList (JArr [JStr ''en'', JStr ''fr'']) [''en'', ''fr'']" by simp
  have ne: "[''en'', ''fr''] \<noteq> []" by simp
  have s1: "strOrAbsent (JStr ''-'') ''-''" by simp
  have s2: "regexLiteral ''-''" by (simp add: regexLiteral_def syntaxChars_def)
  have x1: "strOrAbsent (JStr ''default'') ''default''" by simp
  have x2: "regexLiteral ''default''" by (simp add: regexLiteral_def syntaxChars_def)
  have cs: "\<forall>c\<in>set [''en'', ''fr'']. regexLiteral c" by (simp add: regexLiteral_def syntaxChars_def)
  have rt: "routeFields (JObj [(''name'', JStr ''blog-FR-default'')]) [(''name'', JStr ''blog-FR-default'')]"
    by simp
  have nm: "entryOf [(''name'', JStr ''blog-FR-default'')] ''name'' = JStr ''blog-FR-default'' \<and>
            ''blog-FR-default'' \<noteq> []"
    by (simp add: entryOf_def)
  have v: "firstOr (nameCaptures ''-'' ''default'' [''en'', ''fr''] ''blog-FR-default'') = JStr ''FR''"
    by code_simp
  from getLocaleFromRoute_matches [OF ll ne s1 s2 x1 x2 cs rt, THEN conjunct1, rule_format, OF nm]
  show ?thesis unfolding v by (rule conjunct1)
qed

subsection \<open>Claim C5\<close>

lemma ciEq_Nil [simp]: "ciEq cap [] \<longleftrightarrow> cap = []"
  by (simp add: ciEq_def)

text \<open>
  C5 (as the specification states it). With an empty locale list the extractor is said
  to return \<^verbatim>\<open>null\<close> for every route, separator and suffix. The pattern's group is
  then empty and matches the empty text: the name \<^verbatim>\<open>about-\<close> with the separator
  \<^verbatim>\<open>-\<close> gives the empty string, and so does every named route when the separator and
  the suffix are left to their defaults.
\<close>

theorem getLocaleFromRoute_no_locales_counterexample:
  "getLocaleFromRoute (JObj [(''name'', JStr ''about-'')]) (JStr ''-'') (JStr ''default'') (JArr [])
     = Inr (JStr []) \<and>
   getLocaleFromRoute (JObj [(''name'', JStr ''about'')]) JUndefined JUndefined JUndefined
     = Inr (JStr [])"
  by code_simp

text \<open>
  C5 (amended). With an empty (or absent) locale list and a separator and suffix
  without regular expression syntax characters, the extractor returns the empty string
  or \<^verbatim>\<open>null\<close>, never a code: for a non-empty name the empty string exactly when the
  name holds the separator (case-insensitively) followed by the end of the name or by the
  separator, the suffix and the end of the name; else, for a non-empty path, the empty
  string exactly when the path starts with two slashes; \<^verbatim>\<open>null\<close> in every other case.
\<close>

theorem getLocaleFromRoute_no_locales:
  assumes ll: "localeList locales []"
      and sep: "strOrAbsent routesNameSeparator sep" "regexLiteral sep"
      and sfx: "strOrAbsent defaultLocaleRouteNameSuffix sfx" "regexLiteral sfx"
      and rt: "routeFields route r"
  shows "(\<forall>name. entryOf r ''name'' = JStr name \<and> name \<noteq> [] \<longrightarrow>
            getLocaleFromRoute route routesNameSeparator defaultLocaleRouteNameSuffix locales
              = Inr (if \<exists>pre s tail. name = pre @ s @ tail \<and> ciEq s sep \<and>
                                      (tail = [] \<or> ciEq tail (sep @ sfx))
                     then JStr [] else JNull)) \<and>
         (\<forall>p. \<not> truthy (entryOf r ''name'') \<and> entryOf r ''path'' = JStr p \<and> p \<noteq> [] \<longrightarrow>
            getLocaleFromRoute route routesNameSeparator defaultLocaleRouteNameSuffix locales
              = Inr (if \<exists>rest. p = ''//'' @ rest then JStr [] else JNull)) \<and>
         (\<not> truthy (entryOf r ''name'') \<and> \<not> truthy (entryOf r ''path'') \<longrightarrow>
            getLocaleFromRoute route routesNameSeparator defaultLocaleRouteNameSuffix locales
              = Inr JNull)"
proof -
  have cs: "\<forall>c\<in>set []. regexLiteral c" by simp
  have co: "codesOr [] = [[]]" by (simp add: codesOr_def)
  note g = getLocaleFromRoute_literal [OF ll sep sfx cs rt, unfolded co]
  have n: "firstOr (nameCaptures sep sfx [[]] name) =
             (if \<exists>pre s tail. name = pre @ s @ tail \<and> ciEq s sep \<and>
                               (tail = [] \<or> ciEq tail (sep @ sfx))
              then JStr [] else JNull)" for name
  proof (cases "\<exists>pre s tail. name = pre @ s @ tail \<and> ciEq s sep \<and> (tail = [] \<or> ciEq tail (sep @ sfx))")
    case True
    then obtain pre s tail where d: "name = pre @ s @ [] @ tail" "ciEq s sep"
      "tail = [] \<or> ciEq tail (sep @ sfx)" by auto
    have "\<exists>cap'. firstOr (nameCaptures sep sfx [[]] name) = JStr cap'"
      by (rule name_result_complete [where c = "[]", OF d(1,2) _ _ d(3)]) simp_all
    then obtain cap' where c: "firstOr (nameCaptures sep sfx [[]] name) = JStr cap'" by blast
    from name_result_sound [OF c] have "cap' = []" by auto
    with c True show ?thesis by simp
  next
    case False
    have "firstOr (nameCaptures sep sfx [[]] name) = JNull"
    proof (cases "nameCaptures sep sfx [[]] name")
      case Nil
      then show ?thesis by (simp add: firstOr_def)
    next
      case (Cons cap caps)
      then have "firstOr (nameCaptures sep sfx [[]] name) = JStr cap" by (simp add: firstOr_def)
      from name_result_sound [OF this] obtain pre s tail where
        "name = pre @ s @ cap @ tail" "ciEq s sep" "cap = []" "tail = [] \<or> ciEq tail (sep @ sfx)"
        by auto
      with False show ?thesis by auto
    qed
    with False show ?thesis by simp
  qed
  have p: "firstOr (pathCaptures [[]] q) = (if \<exists>rest. q = ''//'' @ rest then JStr [] else JNull)" for q
  proof (cases "\<exists>rest. q = ''//'' @ rest")
    case True
    then obtain rest where d: "q = ''/'' @ [] @ ''/'' @ rest" by auto
    have "\<exists>cap'. firstOr (pathCaptures [[]] q) = JStr cap'"
      by (rule path_result_complete [where c = "[]", OF d]) simp_all
    then obtain cap' where c: "firstOr (pathCaptures [[]] q) = JStr cap'" by blast
    from path_result_sound [OF c] have "cap' = []" by auto
    with c True show ?thesis by simp
  next
    case False
    have "firstOr (pathCaptures [[]] q) = JNull"
    proof (cases "pathCaptures [[]] q")
      case Nil
      then show ?thesis by (simp add: firstOr_def)
    next
      case (Cons cap caps)
      then have "firstOr (pathCaptures [[]] q) = JStr cap" by (simp add: firstOr_def)
      from path_result_sound [OF this] obtain rest where
        "q = ''/'' @ cap @ ''/'' @ rest" "cap = []" by auto
      with False show ?thesis by auto
    qed
    with False show ?thesis by simp
  qed
  show ?thesis
  proof (intro conjI allI impI)
    fix name assume "entryOf r ''name'' = JStr name \<and> name \<noteq> []"
    then have "getLocaleFromRoute route routesNameSeparator defaultLocaleRouteNameSuffix locales
                 = Inr (firstOr (nameCaptures sep sfx [[]] name))"
      using g by simp
    then show "getLocaleFromRoute route routesNameSeparator defaultLocaleRouteNameSuffix locales
              = Inr (if \<exists>pre s tail. name = pre @ s @ tail \<and> ciEq s sep \<and>
                                      (tail = [] \<or> ciEq tail (sep @ sfx))
                     then JStr [] else JNull)"
      unfolding n .
  next
    fix q assume "\<not> truthy (entryOf r ''name'') \<and> entryOf r ''path'' = JStr q \<and> q \<noteq> []"
    then have "getLocaleFromRoute route routesNameSeparator defaultLocaleRouteNameSuffix locales
                 = Inr (firstOr (pathCaptures [[]] q))"
      using g by simp
    then show "getLocaleFromRoute route routesNameSeparator defaultLocaleRouteNameSuffix locales
              = Inr (if \<exists>rest. q = ''//'' @ rest then JStr [] else JNull)"
      unfolding p .
  next
    assume "\<not> truthy (entryOf r ''name'') \<and> \<not> truthy (entryOf r ''path'')"
    then show "getLocaleFromRoute route routesNameSeparator defaultLocaleRouteNameSuffix locales = Inr JNull"
      using g by simp
  qed
qed

theorem getLocaleFromRoute_no_locales_witness:
  "getLocaleFromRoute (JObj [(''name'', JStr ''about-fr'')]) (JStr ''-'') (JStr ''default'') (JArr [])
     = Inr JNull \<and>
   getLocaleFromRoute (JObj [(''name'', JStr ''about-'')]) (JStr ''-'') (JStr ''default'') JUndefined
     = Inr (JStr [])"
proof -
  have s1: "strOrAbsent (JStr ''-'') ''-''" by simp
  have s2: "regexLiteral ''-''" by (simp add: regexLiteral_def syntaxChars_def)
  have x1: "strOrAbsent (JStr ''default'') ''default''" by simp
  have x2: "regexLiteral ''default''" by (simp add: regexLiteral_def syntaxChars_def)
  have l1: "localeList (JArr []) []" by simp
  have l2: "localeList JUndefined []" by simp
  have r1: "routeFields (JObj [(''name'', JStr ''about-fr'')]) [(''name'', JStr ''about-fr'')]" by simp
  have r2: "routeFields (JObj [(''name'', JStr ''about-'')]) [(''name'', JStr ''about-'')]" by simp
  have n1: "entryOf [(''name'', JStr ''about-fr'')] ''name'' = JStr ''about-fr'' \<and> ''about-fr'' \<noteq> []"
    by (simp add: entryOf_def)
  have n2: "entryOf [(''name'', JStr ''about-'')] ''name'' = JStr ''about-'' \<and> ''about-'' \<noteq> []"
    by (simp add: entryOf_def)
  have no: "\<not> (\<exists>pre s tail. ''about-fr'' = pre @ s @ tail \<and> ciEq s ''-'' \<and>
                 (tail = [] \<or> ciEq tail (''-'' @ ''default'')))"
  proof
    assume "\<exists>pre s tail. ''about-fr'' = pre @ s @ tail \<and> ciEq s ''-'' \<and>
                 (tail = [] \<or> ciEq tail (''-'' @ ''default''))"
    then obtain pre s tail where e: "''about-fr'' = pre @ s @ tail" and s: "ciEq s ''-''"
      and t: "tail = [] \<or> ciEq tail (''-'' @ ''default'')" by blast
    from s have ls: "length s = 1" using ciEq_length by fastforce
    from t have lt: "length tail = 0 \<or> length tail = 8" using ciEq_length by fastforce
    from e have "length ''about-fr'' = length pre + length s + length tail"
      by (metis length_append add.assoc)
    with ls lt have lp: "length pre = 7 \<and> tail = []" by auto
    with e ls have "s = drop 7 ''about-fr''" by (metis append_eq_conv_conj append_Nil2)
    then have "s = ''r''" by simp
    with s show False by (simp add: ciEq_def canonicalize_def)
  qed
  have yes: "\<exists>pre s tail. ''about-'' = pre @ s @ tail \<and> ciEq s ''-'' \<and>
                 (tail = [] \<or> ciEq tail (''-'' @ ''default''))"
  proof (intro exI conjI)
    show "''about-'' = ''about'' @ ''-'' @ []" by simp
    show "ciEq ''-'' ''-''" by (simp add: ciEq_def)
    show "[] = [] \<or> ciEq [] (''-'' @ ''default'')" by simp
  qed
  from getLocaleFromRoute_no_locales [OF l1 s1 s2 x1 x2 r1, THEN conjunct1, rule_format, OF n1]
  have a: "getLocaleFromRoute (JObj [(''name'', JStr ''about-fr'')]) (JStr ''-'') (JStr ''default'') (JArr [])
     = Inr JNull" using no by simp
  from getLocaleFromRoute_no_locales [OF l2 s1 s2 x1 x2 r2, THEN conjunct1, rule_format, OF n2]
  have b: "getLocaleFromRoute (JObj [(''name'', JStr ''about-'')]) (JStr ''-'') (JStr ''default'') JUndefined
     = Inr (JStr [])" using yes by simp
  from a b show ?thesis by simp
qed


section \<open>The page-options resolver: claim C7\<close>













section \<open>The store synchronizer: claim C8\<close>

lemma dispatchStep_ok:
  assumes "getProp vuex ''moduleName'' = Inr mn" "toStringJS mn = Inr m"
  shows "dispatchStep st vuex action payload done cont =
           (case st done (m @ action) payload of
              Some e \<Rightarrow> (done @ [(m @ action, payload)], Rejected e)
            | None \<Rightarrow> cont (done @ [(m @ action, payload)]))"
  using assms by (simp add: dispatchStep_def)

lemma syncVuex_present:
  assumes tv: "truthy vuex" and mn: "getProp vuex ''moduleName'' = Inr mn" and m: "toStringJS mn = Inr m"
  shows "syncVuex vuex (Some st) locale messages =
           (let first = (if wanted vuex ''syncLocale'' locale then [(m @ ''/setLocale'', locale)] else []) in
            case (if wanted vuex ''syncLocale'' locale then st [] (m @ ''/setLocale'') locale else None) of
              Some e \<Rightarrow> (first, Rejected e)
            | None \<Rightarrow>
                if wanted vuex ''syncMessages'' messages then
                  (case st first (m @ ''/setMessages'') messages of
                     Some e \<Rightarrow> (first @ [(m @ ''/setMessages'', messages)], Rejected e)
                   | None \<Rightarrow> (first @ [(m @ ''/setMessages'', messages)], Resolved))
                else (first, Resolved))"
  using tv
  by (auto simp: syncVuex_def Let_def wanted_def orDefault_def dispatchStep_ok [OF mn m]
           split: option.splits)


text \<open>
  C8. With a store and store options of module name \<open>m\<close>, the synchronizer makes at
  most two dispatches, a prefix of: \<^verbatim>\<open>m/setLocale\<close> (only when the locale is not
  \<^verbatim>\<open>null\<close> and locale synchronisation is enabled), then \<^verbatim>\<open>m/setMessages\<close> (only when
  the messages are not \<^verbatim>\<open>null\<close> and message synchronisation is enabled). If the first
  dispatch rejects, the call rejects with the same reason and the second dispatch is not
  made; if the second rejects, the call rejects with its reason; if none rejects, all
  expected dispatches are made and the call resolves. With both flags disabled nothing
  is dispatched and the call resolves.
\<close>

theorem syncVuex_dispatches:
  assumes tv: "truthy vuex" and mn: "getProp vuex ''moduleName'' = Inr mn" and m: "toStringJS mn = Inr m"
  shows "prefix (fst (syncVuex vuex (Some st) locale messages))
                (expectedDispatches vuex m locale messages) \<and>
         length (fst (syncVuex vuex (Some st) locale messages)) \<le> 2 \<and>
         (\<forall>e. wanted vuex ''syncLocale'' locale \<and> st [] (m @ ''/setLocale'') locale = Some e \<longrightarrow>
              syncVuex vuex (Some st) locale messages = ([(m @ ''/setLocale'', locale)], Rejected e)) \<and>
         (\<forall>e. (wanted vuex ''syncLocale'' locale \<longrightarrow> st [] (m @ ''/setLocale'') locale = None) \<and>
              wanted vuex ''syncMessages'' messages \<and>
              st (if wanted vuex ''syncLocale'' locale then [(m @ ''/setLocale'', locale)] else [])
                 (m @ ''/setMessages'') messages = Some e \<longrightarrow>
              syncVuex vuex (Some st) locale messages
                = (expectedDispatches vuex m locale messages, Rejected e)) \<and>
         ((\<forall>h a p. st h a p = None) \<longrightarrow>
              syncVuex vuex (Some st) locale messages
                = (expectedDispatches vuex m locale messages, Resolved)) \<and>
         (\<not> syncFlag vuex ''syncLocale'' \<and> \<not> syncFlag vuex ''syncMessages'' \<longrightarrow>
              syncVuex vuex (Some st) locale messages = ([], Resolved))"
proof -
  note sv = syncVuex_present [OF tv mn m, of st "locale" messages]
  show ?thesis
  proof (intro conjI allI impI)
    show "prefix (fst (syncVuex vuex (Some st) locale messages))
                (expectedDispatches vuex m locale messages)"
      unfolding sv expectedDispatches_def Let_def by (auto split: option.splits)
    show "length (fst (syncVuex vuex (Some st) locale messages)) \<le> 2"
      unfolding sv Let_def by (auto split: option.splits)
  next
    fix e assume "wanted vuex ''syncLocale'' locale \<and> st [] (m @ ''/setLocale'') locale = Some e"
    then show "syncVuex vuex (Some st) locale messages = ([(m @ ''/setLocale'', locale)], Rejected e)"
      unfolding sv Let_def by simp
  next
    fix e
    assume "(wanted vuex ''syncLocale'' locale \<longrightarrow> st [] (m @ ''/setLocale'') locale = None) \<and>
              wanted vuex ''syncMessages'' messages \<and>
              st (if wanted vuex ''syncLocale'' locale then [(m @ ''/setLocale'', locale)] else [])
                 (m @ ''/setMessages'') messages = Some e"
    then show "syncVuex vuex (Some st) locale messages
                = (expectedDispatches vuex m locale messages, Rejected e)"
      unfolding sv expectedDispatches_def Let_def
      by (cases "wanted vuex ''syncLocale'' locale") simp_all
  next
    assume "\<forall>h a p. st h a p = None"
    then show "syncVuex vuex (Some st) locale messages
                = (expectedDispatches vuex m locale messages, Resolved)"
      unfolding sv expectedDispatches_def Let_def by simp
  next
    assume "\<not> syncFlag vuex ''syncLocale'' \<and> \<not> syncFlag vuex ''syncMessages''"
    then show "syncVuex vuex (Some st) locale messages = ([], Resolved)"
      unfolding sv Let_def by (simp add: wanted_def)
  qed
qed

theorem syncVuex_dispatches_witness:
  "syncVuex vuexOn (Some failingStore) (JStr ''fr'') (JObj [(''hello'', JStr ''bonjour'')])
     = ([(''i18n/setLocale'', JStr ''fr'')], Rejected ''boom'') \<and>
   syncVuex vuexOn (Some okStore) (JStr ''fr'') (JObj [(''hello'', JStr ''bonjour'')])
     = ([(''i18n/setLocale'', JStr ''fr''), (''i18n/setMessages'', JObj [(''hello'', JStr ''bonjour'')])],
        Resolved) \<and>
   syncVuex (JObj [(''moduleName'', JStr ''i18n''), (''syncLocale'', JBool False),
                   (''syncMessages'', JBool False)])
            (Some okStore) (JStr ''fr'') (JObj [(''hello'', JStr ''bonjour'')])
     = ([], Resolved)"
proof -
  have tv: "truthy vuexOn" by (simp add: vuexOn_def)
  have mn: "getProp vuexOn ''moduleName'' = Inr (JStr ''i18n'')" by (simp add: vuexOn_def)
  have m: "toStringJS (JStr ''i18n'') = Inr ''i18n''" by simp
  have w1: "wanted vuexOn ''syncLocale'' (JStr ''fr'')"
    by (simp add: wanted_def syncFlag_def vuexOn_def)
  have w2: "wanted vuexOn ''syncMessages'' (JObj [(''hello'', JStr ''bonjour'')])"
    by (simp add: wanted_def syncFlag_def vuexOn_def)
  have f: "failingStore [] (''i18n'' @ ''/setLocale'') (JStr ''fr'') = Some ''boom''"
    by (simp add: failingStore_def)
  have a: "syncVuex vuexOn (Some failingStore) (JStr ''fr'') (JObj [(''hello'', JStr ''bonjour'')])
     = ([(''i18n/setLocale'', JStr ''fr'')], Rejected ''boom'')"
    using syncVuex_dispatches [OF tv mn m, of failingStore "JStr ''fr''" "JObj [(''hello'', JStr ''bonjour'')]"]
          w1 f by simp
  have b: "syncVuex vuexOn (Some okStore) (JStr ''fr'') (JObj [(''hello'', JStr ''bonjour'')])
     = ([(''i18n/setLocale'', JStr ''fr''), (''i18n/setMessages'', JObj [(''hello'', JStr ''bonjour'')])],
        Resolved)"
    using syncVuex_dispatches [OF tv mn m, of okStore "JStr ''fr''" "JObj [(''hello'', JStr ''bonjour'')]"]
          w1 w2 by (simp add: okStore_def expectedDispatches_def)
  let ?off = "JObj [(''moduleName'', JStr ''i18n''), (''syncLocale'', JBool False),
                   (''syncMessages'', JBool False)]"
  have tv': "truthy ?off" by simp
  have mn': "getProp ?off ''moduleName'' = Inr (JStr ''i18n'')" by simp
  have c: "syncVuex ?off (Some okStore) (JStr ''fr'') (JObj [(''hello'', JStr ''bonjour'')]) = ([], Resolved)"
    using syncVuex_dispatches [OF tv' mn' m, of okStore "JStr ''fr''" "JObj [(''hello'', JStr ''bonjour'')]"]
    by (simp add: syncFlag_def)
  from a b c show ?thesis by simp
qed


section \<open>The domain-locale resolver: claim C9\<close>

lemma digit_in: "d < 10 \<Longrightarrow> digit d \<in> set ''0123456789''"
  unfolding digit_def by (rule nth_mem) simp

lemma showNat_digits: "set (showNat n) \<subseteq> set ''0123456789''"
proof (induction n rule: showNat.induct)
  case (1 n)
  show ?case
  proof (cases "n < 10")
    case True
    then show ?thesis using digit_in [of n] by (subst showNat.simps) simp
  next
    case False
    have "n mod 10 < 10" by simp
    from digit_in [OF this] "1.IH" [OF False] False
    show ?thesis by (subst showNat.simps) simp
  qed
qed

lemma showNat_not_domain: "showNat i \<noteq> ''domain''"
proof
  assume "showNat i = ''domain''"
  then have "CHR ''d'' \<in> set (showNat i)" by simp
  with showNat_digits [of i] show False by auto
qed

lemma arrayIndex_domain: "arrayIndex n ''domain'' = None"
  by (simp add: arrayIndex_def find_None_iff showNat_not_domain)

lemma inheritedPrimitive_domain: "inheritedPrimitive ''domain'' = Inr JUndefined"
  by (simp add: inheritedPrimitive_def absentKeys_def)

lemma domainField_record:
  assumes "domainField l = JStr h"
  shows "\<exists>kvs. l = JObj kvs"
proof (cases l)
  case (JStr s)
  with assms show ?thesis
    by (simp add: domainField_def LOCALE_DOMAIN_KEY_def arrayIndex_domain inheritedPrimitive_domain)
next
  case (JArr xs)
  with assms show ?thesis
    by (simp add: domainField_def LOCALE_DOMAIN_KEY_def arrayIndex_domain inheritedPrimitive_domain)
next
  case (JBool b)
  with assms show ?thesis
    by (simp add: domainField_def LOCALE_DOMAIN_KEY_def inheritedPrimitive_domain)
next
  case (JNum n)
  with assms show ?thesis
    by (simp add: domainField_def LOCALE_DOMAIN_KEY_def inheritedPrimitive_domain)
next
  case (JBuiltin b)
  with assms show ?thesis
    by (simp add: domainField_def getBuiltinProp_absent)
qed (use assms in \<open>simp_all add: domainField_def\<close>)

lemma strictEq_str: "strictEq d (JStr h) \<longleftrightarrow> d = JStr h"
  by (cases d) simp_all

lemma getProp_domainField: "present l \<Longrightarrow> getProp l LOCALE_DOMAIN_KEY = Inr (domainField l)"
  unfolding domainField_def by (rule getProp_present) simp_all

lemma findDomain_find:
  "\<forall>l\<in>set ls. present l \<Longrightarrow>
   findDomain (JStr h) ls =
     Inr (case List.find (\<lambda>l. domainField l = JStr h) ls of Some l \<Rightarrow> l | None \<Rightarrow> JUndefined)"
  by (induction ls) (simp_all add: getProp_domainField strictEq_str)

lemma getLocaleDomain_hostname:
  "getLocaleDomain env =
     bindE (hostnameOf env) (\<lambda>hostname.
       if truthy hostname then
         (case i18nLocales env of
            JArr ls \<Rightarrow>
              bindE (findDomain hostname ls) (\<lambda>localeDomain.
                if truthy localeDomain then getProp localeDomain LOCALE_CODE_KEY
                else Inr JNull)
          | _ \<Rightarrow> Inl (noMethod (i18nLocales env) ''find''))
       else Inr JNull)"
  by (simp add: getLocaleDomain_def hostnameOf_def)

text \<open>
  C9. For a hostname that is a non-empty string, \<^verbatim>\<open>getLocaleDomain\<close> returns the code
  field of the first element of the configured locale list whose domain field equals the
  hostname, and \<^verbatim>\<open>null\<close> when there is none; it returns \<^verbatim>\<open>null\<close> when the hostname is
  absent or empty. The hostname is the authority of the URL in a browser; on the server
  it is the \<^verbatim>\<open>x-forwarded-host\<close> header when the forwarded-host setting is enabled and
  that header is present and non-empty, and the \<^verbatim>\<open>host\<close> header otherwise.
\<close>

theorem getLocaleDomain_lookup:
  assumes ls: "i18nLocales env = JArr ls" and pr: "\<forall>l\<in>set ls. present l"
  shows "(\<forall>h. hostnameOf env = Inr (JStr h) \<and> h \<noteq> [] \<longrightarrow>
            getLocaleDomain env =
              Inr (case List.find (\<lambda>l. domainField l = JStr h) ls of
                     Some l \<Rightarrow> codeField l
                   | None \<Rightarrow> JNull)) \<and>
         (\<forall>v. hostnameOf env = Inr v \<and> \<not> truthy v \<longrightarrow> getLocaleDomain env = Inr JNull) \<and>
         (browser env \<longrightarrow> hostnameOf env = Inr (hrefAuthority (href env))) \<and>
         (\<forall>hs. \<not> browser env \<and> headers env = JObj hs \<longrightarrow>
            hostnameOf env =
              Inr (if truthy (forwardedHost env) \<and> truthy (entryOf hs ''x-forwarded-host'')
                   then entryOf hs ''x-forwarded-host'' else entryOf hs ''host'')) \<and>
         hrefAuthority ''https://fr.example.com/about'' = JStr ''fr.example.com''"
proof (intro conjI allI impI)
  fix h assume a: "hostnameOf env = Inr (JStr h) \<and> h \<noteq> []"
  show "getLocaleDomain env =
              Inr (case List.find (\<lambda>l. domainField l = JStr h) ls of
                     Some l \<Rightarrow> codeField l
                   | None \<Rightarrow> JNull)"
  proof (cases "List.find (\<lambda>l. domainField l = JStr h) ls")
    case None
    with a ls show ?thesis
      by (simp add: getLocaleDomain_hostname findDomain_find [OF pr])
  next
    case (Some l)
    then have d: "domainField l = JStr h" and m: "l \<in> set ls"
      by (auto simp: find_Some_iff)
    from domainField_record [OF d] obtain kvs where l: "l = JObj kvs" by blast
    from m pr have "present l" by simp
    then have c: "getProp l LOCALE_CODE_KEY = Inr (codeField l)" by (rule getProp_codeField)
    from l have t: "truthy l" by simp
    from a ls Some c t show ?thesis
      by (simp add: getLocaleDomain_hostname findDomain_find [OF pr])
  qed
next
  fix v assume "hostnameOf env = Inr v \<and> \<not> truthy v"
  then show "getLocaleDomain env = Inr JNull"
    by (simp add: getLocaleDomain_hostname)
next
  assume "browser env"
  then show "hostnameOf env = Inr (hrefAuthority (href env))"
    by (simp add: hostnameOf_def getForwarded_def getHostname_def)
next
  fix hs assume "\<not> browser env \<and> headers env = JObj hs"
  then show "hostnameOf env =
              Inr (if truthy (forwardedHost env) \<and> truthy (entryOf hs ''x-forwarded-host'')
                   then entryOf hs ''x-forwarded-host'' else entryOf hs ''host'')"
    by (simp add: hostnameOf_def getForwarded_def getHostname_def getProp_obj del: getProp.simps)
next
  show "hrefAuthority ''https://fr.example.com/about'' = JStr ''fr.example.com''"
    by code_simp
qed

theorem getLocaleDomain_lookup_witness:
  "getLocaleDomain serverRequest = Inr (JStr ''fr'') \<and>
   getLocaleDomain (serverRequest \<lparr> headers := JObj [(''host'', JStr ''de.example.com'')] \<rparr>) = Inr JNull \<and>
   getLocaleDomain (serverRequest \<lparr> headers := JObj [] \<rparr>) = Inr JNull"
proof -
  have pr: "\<forall>l\<in>set exampleLocales. present l" by (simp add: exampleLocales_def present_def)
  have l1: "i18nLocales serverRequest = JArr exampleLocales" by (simp add: serverRequest_def)
  have h1: "hostnameOf serverRequest = Inr (JStr ''fr.example.com'') \<and> ''fr.example.com'' \<noteq> []"
    by (simp add: hostnameOf_def serverRequest_def getForwarded_def getProp_obj entryOf_def
              del: getProp.simps)
  have f1: "List.find (\<lambda>l. domainField l = JStr ''fr.example.com'') exampleLocales
              = Some (JObj [(''code'', JStr ''fr''), (''domain'', JStr ''fr.example.com'')])"
    by (simp add: exampleLocales_def domainField_def LOCALE_DOMAIN_KEY_def)
  have a: "getLocaleDomain serverRequest = Inr (JStr ''fr'')"
    using getLocaleDomain_lookup [OF l1 pr, THEN conjunct1, rule_format, OF h1]
    by (simp add: f1 codeField_def LOCALE_CODE_KEY_def)
  let ?e2 = "serverRequest \<lparr> headers := JObj [(''host'', JStr ''de.example.com'')] \<rparr>"
  have l2: "i18nLocales ?e2 = JArr exampleLocales" by (simp add: serverRequest_def)
  have h2: "hostnameOf ?e2 = Inr (JStr ''de.example.com'') \<and> ''de.example.com'' \<noteq> []"
    by (simp add: hostnameOf_def serverRequest_def getForwarded_def getProp_obj entryOf_def
              del: getProp.simps)
  have f2: "List.find (\<lambda>l. domainField l = JStr ''de.example.com'') exampleLocales = None"
    by (simp add: exampleLocales_def domainField_def LOCALE_DOMAIN_KEY_def)
  have b: "getLocaleDomain ?e2 = Inr JNull"
    using getLocaleDomain_lookup [OF l2 pr, THEN conjunct1, rule_format, OF h2]
    by (simp add: f2)
  let ?e3 = "serverRequest \<lparr> headers := JObj [] \<rparr>"
  have l3: "i18nLocales ?e3 = JArr exampleLocales" by (simp add: serverRequest_def)
  have h3: "hostnameOf ?e3 = Inr JUndefined \<and> \<not> truthy JUndefined"
    by (simp add: hostnameOf_def serverRequest_def getForwarded_def getProp_obj entryOf_def
              del: getProp.simps)
  have c: "getLocaleDomain ?e3 = Inr JNull"
    by (rule getLocaleDomain_lookup [OF l3 pr, THEN conjunct2, THEN conjunct1, rule_format, OF h3])
  from a b c show ?thesis by simp
qed

section \<open>Throwing: claim C2\<close>













end
